theory Spec2Isabelle
  imports Main
begin

section \<open>The \<open>bundle\<close> command of flipper-pkg\<close>

text \<open>
  The development embeds \<^verbatim>\<open>desktop/pkg/src/commands/bundle.ts\<close>: the function
  \<^verbatim>\<open>deriveOutputFileName\<close> and the method \<^verbatim>\<open>Bundle.run\<close>. The command is a
  straight line of calls into the host (file system, prompt, yarn, the bundler), so the
  model is a computation over an abstract world: every host call is a field of a record
  of oracles, every awaited promise that can reject is a sum, and every call with an effect
  is written to a trace in the order the code makes it. The one promise that is not
  awaited, the directory creation of line 82, is kept in the state as a creation in flight:
  it settles during one of the later \<^verbatim>\<open>await\<close>s, and a rejection of it is handled by
  nobody.

  Two things are left out. The progress output (\<^verbatim>\<open>this.log\<close>, \<^verbatim>\<open>cli.action.start\<close>,
  \<^verbatim>\<open>cli.action.stop\<close>) does not take part in the control flow. Values read from
  \<^verbatim>\<open>package.json\<close> are restricted to the three shapes the fields can take for a
  well-typed manifest: absent, \<^verbatim>\<open>null\<close>, or a string.
\<close>

subsection \<open>The module \<^verbatim>\<open>path\<close> of Node.js, on a POSIX host\<close>

text \<open>
  \<^verbatim>\<open>path\<close> is a library of the runtime. The functions below give \<^verbatim>\<open>path.posix\<close>:
  \<^verbatim>\<open>normalizeString\<close> works segment by segment (empty segments and \<^verbatim>\<open>.\<close> are dropped,
  \<^verbatim>\<open>..\<close> removes the segment before it, and is kept only where the path may climb above its
  start); \<^verbatim>\<open>dirname\<close> and \<^verbatim>\<open>basename\<close> scan from the end of the string as the library
  does. Paths are strings of bytes; the separator is the single byte \<^verbatim>\<open>/\<close>.
\<close>

fun split_slash :: "string \<Rightarrow> string list" where
  "split_slash [] = [[]]"
| "split_slash (c # cs) =
     (if c = CHR ''/'' then [] # split_slash cs
      else (case split_slash cs of
              [] \<Rightarrow> [[c]]
            | s # ss \<Rightarrow> (c # s) # ss))"

fun sep_concat :: "string list \<Rightarrow> string" where
  "sep_concat [] = []"
| "sep_concat [x] = x"
| "sep_concat (x # y # ys) = x @ CHR ''/'' # sep_concat (y # ys)"

definition norm_step :: "bool \<Rightarrow> string list \<Rightarrow> string \<Rightarrow> string list" where
  "norm_step allowAboveRoot res seg =
     (if seg = [] \<or> seg = ''.'' then res
      else if seg = ''..'' then
        (case res of
           [] \<Rightarrow> if allowAboveRoot then [''..''] else []
         | t # ts \<Rightarrow>
             if t = ''..'' then (if allowAboveRoot then ''..'' # res else res)
             else ts)
      else seg # res)"

definition normalizeString :: "string \<Rightarrow> bool \<Rightarrow> string" where
  "normalizeString path allowAboveRoot =
     sep_concat (rev (foldl (norm_step allowAboveRoot) [] (split_slash path)))"

definition isAbsolute :: "string \<Rightarrow> bool" where
  "isAbsolute path = (path \<noteq> [] \<and> hd path = CHR ''/'')"

definition normalize :: "string \<Rightarrow> string" where
  "normalize path =
     (if path = [] then ''.''
      else
        let isAbs = isAbsolute path;
            trailingSeparator = (last path = CHR ''/'');
            p = normalizeString path (\<not> isAbs)
        in if p = [] then
             (if isAbs then ''/'' else if trailingSeparator then ''./'' else ''.'')
           else
             let p' = (if trailingSeparator then p @ ''/'' else p)
             in if isAbs then CHR ''/'' # p' else p')"

definition join :: "string list \<Rightarrow> string" where
  "join args =
     (let joined = sep_concat (filter (\<lambda>a. a \<noteq> []) args)
      in if joined = [] then ''.'' else normalize joined)"

text \<open>
  \<^verbatim>\<open>path.resolve\<close> reads its arguments from the last to the first and stops at the first
  absolute one; the working directory is read only when no argument is absolute.
\<close>

fun resolve_loop :: "string list \<Rightarrow> string \<Rightarrow> string \<times> bool" where
  "resolve_loop [] resolvedPath = (resolvedPath, False)"
| "resolve_loop (p # ps) resolvedPath =
     (if p = [] then resolve_loop ps resolvedPath
      else if hd p = CHR ''/'' then (p @ CHR ''/'' # resolvedPath, True)
      else resolve_loop ps (p @ CHR ''/'' # resolvedPath))"

definition resolve :: "string \<Rightarrow> string list \<Rightarrow> string" where
  "resolve cwd args =
     (case resolve_loop (rev args @ [cwd]) [] of
        (resolvedPath, resolvedAbsolute) \<Rightarrow>
          let p = normalizeString resolvedPath (\<not> resolvedAbsolute)
          in if resolvedAbsolute then CHR ''/'' # p
             else if p \<noteq> [] then p else ''.'')"

definition dirname :: "string \<Rightarrow> string" where
  "dirname path =
     (if path = [] then ''.''
      else
        let hasRoot = (hd path = CHR ''/'');
            r = dropWhile (\<lambda>c. c \<noteq> CHR ''/'')
                  (dropWhile (\<lambda>c. c = CHR ''/'') (rev (tl path)))
        in if r = [] then (if hasRoot then ''/'' else ''.'')
           else if hasRoot \<and> length r = 1 then ''//''
           else take (length r) path)"

definition basename :: "string \<Rightarrow> string" where
  "basename path =
     rev (takeWhile (\<lambda>c. c \<noteq> CHR ''/'')
            (dropWhile (\<lambda>c. c = CHR ''/'') (rev path)))"

subsection \<open>Values, errors and the host\<close>

text \<open>
  A field of the parsed \<^verbatim>\<open>package.json\<close>: absent (\<^verbatim>\<open>undefined\<close>), \<^verbatim>\<open>null\<close> or a
  string. \<^verbatim>\<open>to_string\<close> is the conversion a template literal applies, \<^verbatim>\<open>falsy\<close> is
  what \<^verbatim>\<open>||\<close> tests, \<^verbatim>\<open>nullish\<close> is what \<^verbatim>\<open>??\<close> tests.
\<close>

datatype jsval = Undefined | Null | Str string

fun to_string :: "jsval \<Rightarrow> string" where
  "to_string Undefined = ''undefined''"
| "to_string Null = ''null''"
| "to_string (Str s) = s"

fun falsy :: "jsval \<Rightarrow> bool" where
  "falsy Undefined = True"
| "falsy Null = True"
| "falsy (Str s) = (s = [])"

fun nullish :: "jsval \<Rightarrow> bool" where
  "nullish Undefined = True"
| "nullish Null = True"
| "nullish (Str s) = False"

record packageJson =
  name :: jsval
  version :: jsval
  main :: jsval
  bundleMain :: jsval

record stats =
  isDirectory :: bool

text \<open>
  \<^verbatim>\<open>CLIError\<close> is what \<^verbatim>\<open>this.error\<close> throws; \<^verbatim>\<open>Thrown\<close> carries the rejection of an
  awaited call of the host, unchanged. \<^verbatim>\<open>UnhandledRejection\<close> is the end of the process
  when a promise that nobody awaits is rejected and the runtime throws on that; it is
  not an error of \<^verbatim>\<open>run\<close>, which is suspended at an \<^verbatim>\<open>await\<close> when it happens.
\<close>

datatype error = CLIError string | Thrown string | UnhandledRejection string

text \<open>The calls with an effect, as the trace records them, with their arguments.\<close>

datatype event =
    Prompt string
  | Mkdirp string
  | Install string
  | EnsureDir string
  | RunBuild string jsval string
  | Pack string string

text \<open>
  What the runtime does with a rejected promise that has no handler (the option
  \<^verbatim>\<open>--unhandled-rejections\<close> of Node.js): \<open>Throw\<close> ends the process (the default from
  version 15 on), \<open>Warn\<close> prints a warning and goes on (the default before).
\<close>

datatype rejections = Throw | Warn

text \<open>
  The host: the working directory and one oracle for each imported function the command
  calls. \<open>Inl\<close> is a rejected promise. \<^verbatim>\<open>pathExists\<close> of fs-extra never rejects. The
  oracles that write return the world they leave behind. \<open>h_settles w dir k\<close> says
  whether a creation of \<open>dir\<close> that was started and not awaited settles during the
  \<open>k\<close>-th \<^verbatim>\<open>await\<close> after its call, in world \<open>w\<close>: the schedule is the host's.
\<close>

record 'w host =
  h_cwd :: string
  h_lstat :: "'w \<Rightarrow> string \<Rightarrow> string + stats"
  h_pathExists :: "'w \<Rightarrow> string \<Rightarrow> bool"
  h_readJSON :: "'w \<Rightarrow> string \<Rightarrow> string + packageJson"
  h_prompt :: "'w \<Rightarrow> string \<Rightarrow> string + bool"
  h_mkdirp :: "'w \<Rightarrow> string \<Rightarrow> string + 'w"
  h_ensureDir :: "'w \<Rightarrow> string \<Rightarrow> string + 'w"
  h_install :: "'w \<Rightarrow> string \<Rightarrow> string + 'w"
  h_runBuild :: "'w \<Rightarrow> string \<Rightarrow> jsval \<Rightarrow> string \<Rightarrow> string + 'w"
  h_pack :: "'w \<Rightarrow> string \<Rightarrow> string \<Rightarrow> string + 'w"
  h_settles :: "'w \<Rightarrow> string \<Rightarrow> nat \<Rightarrow> bool"
  h_unhandled :: rejections

subsection \<open>Computations: a trace, and an error or a value with the new state\<close>

text \<open>
  The state of a run: the world, and the creation that was called without \<^verbatim>\<open>await\<close> and
  has not settled yet, with the number of \<^verbatim>\<open>await\<close>s it has been in flight for. The command
  calls \<^verbatim>\<open>mkdirp\<close> at most once, so at most one creation is in flight. A run starts
  \<open>quiet\<close>.
\<close>

record 'w state =
  world :: 'w
  inflight :: "(string \<times> nat) option"

definition quiet :: "'w \<Rightarrow> 'w state" where
  "quiet w = \<lparr> world = w, inflight = None \<rparr>"

type_synonym ('w, 'a) io = "'w state \<Rightarrow> event list \<times> (error + 'a \<times> 'w state)"

definition ret :: "'a \<Rightarrow> ('w, 'a) io" where
  "ret x = (\<lambda>s. ([], Inr (x, s)))"

definition throw :: "error \<Rightarrow> ('w, 'a) io" where
  "throw e = (\<lambda>s. ([], Inl e))"

definition bnd :: "('w, 'a) io \<Rightarrow> ('a \<Rightarrow> ('w, 'b) io) \<Rightarrow> ('w, 'b) io" where
  "bnd m f =
     (\<lambda>s. case m s of
             (t, Inl e) \<Rightarrow> (t, Inl e)
           | (t, Inr (x, s')) \<Rightarrow> (case f x s' of (t', r) \<Rightarrow> (t @ t', r)))"

text \<open>
  One \<^verbatim>\<open>await\<close>: \<^verbatim>\<open>run\<close> is suspended and the event loop turns. A creation in flight
  either stays in flight, or is fulfilled and the world is the one it leaves, or is
  rejected: nobody holds its promise, so the runtime ends the process or warns, as it
  is set; a rejected creation is taken to leave the world as it was. With nothing in
  flight the turn changes nothing.
\<close>

definition turn :: "'w host \<Rightarrow> 'w state \<Rightarrow> error + 'w state" where
  "turn h s =
     (case inflight s of
        None \<Rightarrow> Inr s
      | Some (dir, k) \<Rightarrow>
          if h_settles h (world s) dir k then
            (case h_mkdirp h (world s) dir of
               Inr w' \<Rightarrow> Inr \<lparr> world = w', inflight = None \<rparr>
             | Inl m \<Rightarrow>
                 (case h_unhandled h of
                    Throw \<Rightarrow> Inl (UnhandledRejection m)
                  | Warn \<Rightarrow> Inr (s \<lparr> inflight := None \<rparr>)))
          else Inr (s \<lparr> inflight := Some (dir, Suc k) \<rparr>))"

definition suspend :: "'w host \<Rightarrow> ('w, unit) io" where
  "suspend h =
     (\<lambda>s. case turn h s of
             Inl e \<Rightarrow> ([], Inl e)
           | Inr s' \<Rightarrow> ([], Inr ((), s')))"

text \<open>Awaited reads: no event; the answer is the host's in the world after the turn.\<close>

definition lstat :: "'w host \<Rightarrow> string \<Rightarrow> ('w, stats) io" where
  "lstat h p =
     bnd (suspend h)
       (\<lambda>_ s. case h_lstat h (world s) p of
                 Inl m \<Rightarrow> ([], Inl (Thrown m))
               | Inr st \<Rightarrow> ([], Inr (st, s)))"

definition pathExists :: "'w host \<Rightarrow> string \<Rightarrow> ('w, bool) io" where
  "pathExists h p =
     bnd (suspend h) (\<lambda>_ s. ([], Inr (h_pathExists h (world s) p, s)))"

definition readJSON :: "'w host \<Rightarrow> string \<Rightarrow> ('w, packageJson) io" where
  "readJSON h p =
     bnd (suspend h)
       (\<lambda>_ s. case h_readJSON h (world s) p of
                 Inl m \<Rightarrow> ([], Inl (Thrown m))
               | Inr pj \<Rightarrow> ([], Inr (pj, s)))"

text \<open>
  Awaited calls with an effect: the call is made and recorded, \<^verbatim>\<open>run\<close> is suspended,
  and the outcome is the host's in the world after the turn.
\<close>

definition call :: "event \<Rightarrow> ('w, unit) io" where
  "call ev = (\<lambda>s. ([ev], Inr ((), s)))"

definition prompt :: "'w host \<Rightarrow> string \<Rightarrow> ('w, bool) io" where
  "prompt h msg =
     bnd (call (Prompt msg))
       (\<lambda>_. bnd (suspend h)
          (\<lambda>_ s. case h_prompt h (world s) msg of
                    Inl m \<Rightarrow> ([], Inl (Thrown m))
                  | Inr b \<Rightarrow> ([], Inr (b, s))))"

definition awaited :: "'w host \<Rightarrow> event \<Rightarrow> ('w \<Rightarrow> string + 'w) \<Rightarrow> ('w, unit) io" where
  "awaited h ev f =
     bnd (call ev)
       (\<lambda>_. bnd (suspend h)
          (\<lambda>_ s. case f (world s) of
                    Inl m \<Rightarrow> ([], Inl (Thrown m))
                  | Inr w' \<Rightarrow> ([], Inr ((), s \<lparr> world := w' \<rparr>))))"

definition ensureDir :: "'w host \<Rightarrow> string \<Rightarrow> ('w, unit) io" where
  "ensureDir h p = awaited h (EnsureDir p) (\<lambda>w. h_ensureDir h w p)"

definition yarn_install :: "'w host \<Rightarrow> string \<Rightarrow> ('w, unit) io" where
  "yarn_install h d = awaited h (Install d) (\<lambda>w. h_install h w d)"

definition runBuild :: "'w host \<Rightarrow> string \<Rightarrow> jsval \<Rightarrow> string \<Rightarrow> ('w, unit) io" where
  "runBuild h d entry out = awaited h (RunBuild d entry out) (\<lambda>w. h_runBuild h w d entry out)"

definition yarn_pack :: "'w host \<Rightarrow> string \<Rightarrow> string \<Rightarrow> ('w, unit) io" where
  "yarn_pack h d f = awaited h (Pack d f) (\<lambda>w. h_pack h w d f)"

text \<open>
  Line 82 calls \<^verbatim>\<open>mkdirp(dir)\<close> as a statement, with no \<^verbatim>\<open>await\<close> and no handler: the
  call is made and recorded, its promise is dropped, and \<^verbatim>\<open>run\<close> goes on at once. The
  world is as before the call and the creation is in flight; when and how it settles
  is decided at the later \<^verbatim>\<open>await\<close>s, by \<open>turn\<close>.
\<close>

definition mkdirp_unawaited :: "string \<Rightarrow> ('w, unit) io" where
  "mkdirp_unawaited p = (\<lambda>s. ([Mkdirp p], Inr ((), s \<lparr> inflight := Some (p, 0) \<rparr>)))"

subsection \<open>\<^verbatim>\<open>deriveOutputFileName\<close> (lines 19 to 22)\<close>

text \<open>Line 21, the template literal: \<^verbatim>\<open>${packageJson.name || ''}-${packageJson.version}.tgz\<close>.\<close>

definition outputFileName :: "packageJson \<Rightarrow> string" where
  "outputFileName pj =
     (if falsy (name pj) then [] else to_string (name pj))
       @ ''-'' @ to_string (version pj) @ ''.tgz''"

definition deriveOutputFileName :: "'w host \<Rightarrow> string \<Rightarrow> ('w, string) io" where
  "deriveOutputFileName h inputDirectory =
     bnd (readJSON h (join [inputDirectory, ''package.json'']))
       (\<lambda>pj. ret (outputFileName pj))"

subsection \<open>\<^verbatim>\<open>Bundle.run\<close> (lines 41 to 126)\<close>

record args =
  directory :: string
  "output" :: string

text \<open>
  Lines 63 to 71: \<^verbatim>\<open>dir\<close> and \<^verbatim>\<open>file\<close> for an output that does not exist;
  \<open>None\<close> is the \<^verbatim>\<open>null\<close> that \<^verbatim>\<open>file\<close> starts with. \<^verbatim>\<open>slice(-1)\<close> of the empty string
  is the empty string.
\<close>

definition dirAndFile :: "string \<Rightarrow> string \<times> string option" where
  "dirAndFile out =
     (if out \<noteq> [] \<and> last out = CHR ''/'' then (out, None)
      else (dirname out, Some (basename out)))"

text \<open>Line 76, the question put to the operator (\<open>CHR 0x27\<close> is the single quote).\<close>

definition createMessage :: "string \<Rightarrow> string" where
  "createMessage dir =
     ''Output directory '' @ [CHR 0x27] @ dir @ [CHR 0x27]
       @ '' doesn'' @ [CHR 0x27] @ ''t exist. Create it?''"

text \<open>Lines 73 to 86: the directory is missing, ask, then create it or give up.\<close>

definition confirmCreate :: "'w host \<Rightarrow> string \<Rightarrow> ('w, unit) io" where
  "confirmCreate h dir =
     bnd (pathExists h dir)
       (\<lambda>dex.
          if \<not> dex then
            bnd (prompt h (createMessage dir))
              (\<lambda>confirm.
                 if confirm then mkdirp_unawaited dir
                 else throw (CLIError (''Output directory '' @ dir @ '' not found.'')))
          else ret ())"

text \<open>Lines 49 to 92: the value of the variable \<^verbatim>\<open>output\<close>.\<close>

definition resolveOutput :: "'w host \<Rightarrow> args \<Rightarrow> ('w, string) io" where
  "resolveOutput h a =
     bnd (pathExists h (output a))
       (\<lambda>ex.
          if ex then
            bnd (lstat h (output a))
              (\<lambda>outputStat.
                 if isDirectory outputStat then
                   bnd (deriveOutputFileName h (directory a))
                     (\<lambda>f. ret (resolve (h_cwd h) [join [output a, f]]))
                 else ret (output a))
          else
            (case dirAndFile (output a) of
               (dir, file) \<Rightarrow>
                 bnd (confirmCreate h dir)
                   (\<lambda>_. bnd (case file of
                                None \<Rightarrow> deriveOutputFileName h (directory a)
                              | Some f \<Rightarrow> ret f)
                           (\<lambda>file. ret (join [dir, file])))))"

text \<open>
  Lines 44 to 47 and 49 to 95: the check of the input, then the pair
  \<^verbatim>\<open>inputDirectory\<close>, \<^verbatim>\<open>outputFile\<close> that the pipeline receives.
\<close>

definition resolvePaths :: "'w host \<Rightarrow> args \<Rightarrow> ('w, string \<times> string) io" where
  "resolvePaths h a =
     bnd (lstat h (directory a))
       (\<lambda>stat.
          bnd (if \<not> isDirectory stat then
                 throw (CLIError (''Plugin source '' @ directory a @ '' is not a directory.''))
               else ret ())
            (\<lambda>_. bnd (resolveOutput h a)
              (\<lambda>output.
                 ret (resolve (h_cwd h) [directory a], resolve (h_cwd h) [output]))))"

text \<open>
  Lines 107 to 111: the entry handed to the bundler. The existence of \<^verbatim>\<open>index.tsx\<close> is
  asked only when \<^verbatim>\<open>main\<close> is absent or null.
\<close>

definition resolveEntry :: "'w host \<Rightarrow> string \<Rightarrow> packageJson \<Rightarrow> ('w, jsval) io" where
  "resolveEntry h inputDirectory pj =
     (if nullish (main pj) then
        bnd (pathExists h (join [inputDirectory, ''index.tsx'']))
          (\<lambda>ex. ret (Str (if ex then ''index.tsx'' else ''index.jsx'')))
      else ret (main pj))"

text \<open>Line 112: \<^verbatim>\<open>bundleMain\<close>, a string once \<^verbatim>\<open>??\<close> has been applied.\<close>

definition resolveBundleMain :: "packageJson \<Rightarrow> string" where
  "resolveBundleMain pj =
     (case bundleMain pj of
        Str s \<Rightarrow> s
      | _ \<Rightarrow> join [''dist'', ''index.js''])"

text \<open>Lines 99 to 123: install, read the manifest, compile, pack.\<close>

definition pipeline :: "'w host \<Rightarrow> string \<Rightarrow> string \<Rightarrow> ('w, unit) io" where
  "pipeline h inputDirectory outputFile =
     bnd (yarn_install h inputDirectory)
       (\<lambda>_. bnd (readJSON h (join [inputDirectory, ''package.json'']))
         (\<lambda>pj. bnd (resolveEntry h inputDirectory pj)
           (\<lambda>entry.
              let out = resolve (h_cwd h) [inputDirectory, resolveBundleMain pj]
              in bnd (ensureDir h (dirname out))
                   (\<lambda>_. bnd (runBuild h inputDirectory entry out)
                     (\<lambda>_. yarn_pack h inputDirectory outputFile)))))"

definition run :: "'w host \<Rightarrow> args \<Rightarrow> ('w, unit) io" where
  "run h a =
     bnd (resolvePaths h a)
       (\<lambda>(inputDirectory, outputFile). pipeline h inputDirectory outputFile)"

subsection \<open>The entry as the specification words it\<close>

text \<open>
  The specification's sentence on the entry, for a manifest without \<^verbatim>\<open>main\<close>: the first
  of \<^verbatim>\<open>index.tsx\<close>, \<^verbatim>\<open>index.jsx\<close> that exists in the input directory, and undefined
  when neither does. It is compared with \<open>resolveEntry\<close> below.
\<close>

definition spec_entry :: "'w host \<Rightarrow> 'w \<Rightarrow> string \<Rightarrow> jsval" where
  "spec_entry h w inputDirectory =
     (if h_pathExists h w (join [inputDirectory, ''index.tsx'']) then Str ''index.tsx''
      else if h_pathExists h w (join [inputDirectory, ''index.jsx'']) then Str ''index.jsx''
      else Undefined)"

subsection \<open>A file system to run the command on\<close>

text \<open>
  The world is a list of absolute, normalised paths, each a directory (\<open>True\<close>) or a
  file; the first entry for a path counts, and the root is a directory. A path is looked
  up as the kernel does it, one segment after the other from the root or the working
  directory \<^verbatim>\<open>/work\<close>: every path on the way must be a directory, so the empty path, a
  path through a file and a file followed by a separator do not exist.
\<close>

type_synonym tree = "(string \<times> bool) list"

definition node_at :: "tree \<Rightarrow> string list \<Rightarrow> bool option" where
  "node_at w cur = (if cur = [] then Some True else map_of w (CHR ''/'' # sep_concat (rev cur)))"

fun walk :: "tree \<Rightarrow> string list \<Rightarrow> string list \<Rightarrow> string list option" where
  "walk w cur [] = Some cur"
| "walk w cur (seg # segs) =
     (if node_at w cur = Some True then walk w (norm_step False cur seg) segs else None)"

definition tree_lookup :: "tree \<Rightarrow> string \<Rightarrow> bool option" where
  "tree_lookup w p =
     (if p = [] then None
      else case walk w [] (split_slash (if isAbsolute p then p else ''/work/'' @ p)) of
             None \<Rightarrow> None
           | Some cur \<Rightarrow> node_at w cur)"

text \<open>
  \<^verbatim>\<open>mkdirp\<close> and \<^verbatim>\<open>ensureDir\<close> resolve the path and create it with the ancestors that are
  missing; a file on the way is an error. A file is written where its directory exists
  and no directory has its name.
\<close>

fun mkdirs :: "tree \<Rightarrow> string list \<Rightarrow> string list \<Rightarrow> string + tree" where
  "mkdirs w cur [] =
     (case node_at w cur of
        None \<Rightarrow> Inr ((CHR ''/'' # sep_concat (rev cur), True) # w)
      | Some d \<Rightarrow> if d then Inr w else Inl ''EEXIST'')"
| "mkdirs w cur (seg # segs) =
     (case node_at w cur of
        None \<Rightarrow> mkdirs ((CHR ''/'' # sep_concat (rev cur), True) # w)
                  (norm_step False cur seg) segs
      | Some d \<Rightarrow> if d then mkdirs w (norm_step False cur seg) segs else Inl ''ENOTDIR'')"

definition make_dir :: "tree \<Rightarrow> string \<Rightarrow> string + tree" where
  "make_dir w p = mkdirs w [] (split_slash (resolve ''/work'' [p]))"

definition write_file :: "tree \<Rightarrow> string \<Rightarrow> string + tree" where
  "write_file w f =
     (if tree_lookup w (dirname f) = Some True \<and> tree_lookup w f \<noteq> Some True
      then Inr ((f, False) # w) else Inl ''ENOENT'')"

text \<open>
  The tools run in the input directory, which must be there; the bundler reads its entry
  from it.
\<close>

definition in_dir :: "tree \<Rightarrow> string \<Rightarrow> (string + tree) \<Rightarrow> string + tree" where
  "in_dir w d r = (if tree_lookup w d = Some True then r else Inl ''ENOENT'')"

definition install_in :: "tree \<Rightarrow> string \<Rightarrow> string + tree" where
  "install_in w d = in_dir w d (make_dir w (d @ ''/node_modules''))"

definition build_in :: "tree \<Rightarrow> string \<Rightarrow> jsval \<Rightarrow> string \<Rightarrow> string + tree" where
  "build_in w d entry out =
     in_dir w d
       (case entry of
          Str e \<Rightarrow> if tree_lookup w (resolve d [e]) = Some False then write_file w out
                   else Inl ''ENOENT''
        | _ \<Rightarrow> Inl ''ENOENT'')"

definition pack_in :: "tree \<Rightarrow> string \<Rightarrow> string \<Rightarrow> string + tree" where
  "pack_in w d f = in_dir w d (write_file w f)"

text \<open>
  The host on that file system. Every file parses to the manifest given and the operator
  answers as given. The installation leaves \<^verbatim>\<open>node_modules\<close>, the bundler writes the
  bundle, \<^verbatim>\<open>yarn pack\<close> writes the archive. A creation that is not awaited settles during
  the first \<^verbatim>\<open>await\<close> after its call, and the runtime throws on an unhandled rejection.
\<close>

definition test_host :: "bool \<Rightarrow> packageJson \<Rightarrow> tree host" where
  "test_host answer pj =
     \<lparr> h_cwd = ''/work'',
       h_lstat = (\<lambda>w p. case tree_lookup w p of
                           None \<Rightarrow> Inl ''ENOENT''
                         | Some d \<Rightarrow> Inr \<lparr> isDirectory = d \<rparr>),
       h_pathExists = (\<lambda>w p. tree_lookup w p \<noteq> None),
       h_readJSON = (\<lambda>w p. if tree_lookup w p = Some False then Inr pj else Inl ''ENOENT''),
       h_prompt = (\<lambda>w msg. Inr answer),
       h_mkdirp = make_dir,
       h_ensureDir = make_dir,
       h_install = install_in,
       h_runBuild = build_in,
       h_pack = pack_in,
       h_settles = (\<lambda>w dir k. True),
       h_unhandled = Throw \<rparr>"

definition test_manifest :: packageJson where
  "test_manifest =
     \<lparr> name = Str ''my-plugin'', version = Str ''1.2.3'',
       main = Undefined, bundleMain = Undefined \<rparr>"

definition test_tree :: tree where
  "test_tree =
     [(''/work'', True),
      (''/work/plugin'', True),
      (''/work/plugin/package.json'', False),
      (''/work/plugin/index.tsx'', False),
      (''/work/dist'', True),
      (''/work/old.tgz'', False)]"

text \<open>The same tree without an index file.\<close>

definition bare_tree :: tree where
  "bare_tree =
     [(''/work'', True),
      (''/work/plugin'', True),
      (''/work/plugin/package.json'', False)]"

definition nameless_manifest :: packageJson where
  "nameless_manifest =
     \<lparr> name = Undefined, version = Str ''1.2.3'',
       main = Undefined, bundleMain = Undefined \<rparr>"

text \<open>A host on which one of the tools, named by \<open>stage\<close>, is rejected.\<close>

definition failing_host :: "string \<Rightarrow> tree host" where
  "failing_host stage =
     (test_host True test_manifest)
       \<lparr> h_ensureDir := (\<lambda>w p. if stage = ''ensureDir'' then Inl ''EACCES''
                                 else make_dir w p),
         h_install := (\<lambda>w d. if stage = ''install'' then Inl ''yarn install failed''
                               else install_in w d),
         h_runBuild := (\<lambda>w d entry out. if stage = ''build'' then Inl ''build failed''
                                         else build_in w d entry out),
         h_pack := (\<lambda>w d f. if stage = ''pack'' then Inl ''yarn pack failed''
                              else pack_in w d f) \<rparr>"



subsection \<open>Computations that only ask and create\<close>

text \<open>A computation whose trace, from every state, holds questions and creations only.\<close>

definition asks_only :: "('w, 'a) io \<Rightarrow> bool" where
  "asks_only m = (\<forall>s. set (fst (m s)) \<subseteq> range Prompt \<union> range Mkdirp)"

subsection \<open>Auxiliary notions for the lemmas on paths\<close>

text \<open>
  A plain segment is one that normalisation pushes as it is. \<open>canon\<close> is the stack of
  segments that \<^verbatim>\<open>normalizeString\<close> builds for a path that may not climb above its start,
  begun from a given stack (the last segment first). A stack is \<open>climbing\<close> when it is
  what normalisation of a relative path leaves: plain segments above a run of \<^verbatim>\<open>..\<close>.
\<close>

definition plain :: "string \<Rightarrow> bool" where
  "plain s = (s \<noteq> [] \<and> s \<noteq> ''.'' \<and> s \<noteq> ''..'' \<and> CHR ''/'' \<notin> set s)"

definition canon :: "string list \<Rightarrow> string \<Rightarrow> string list" where
  "canon st x = foldl (norm_step False) st (split_slash x)"

fun climbing :: "string list \<Rightarrow> bool" where
  "climbing [] = True"
| "climbing (x # t) =
     (if x = ''..'' then (\<forall>y\<in>set t. y = ''..'') else plain x \<and> climbing t)"

section \<open>Lemmas on paths\<close>

subsection \<open>Splitting and normalising\<close>

lemma split_slash_nonempty: "split_slash p \<noteq> []"
  by (induction p) (auto split: list.splits)

lemma split_slash_append:
  "split_slash (a @ CHR ''/'' # b) = split_slash a @ split_slash b"
  by (induction a) (auto split: list.splits simp: split_slash_nonempty)

lemma split_slash_noslash: "CHR ''/'' \<notin> set s \<Longrightarrow> split_slash s = [s]"
  by (induction s) auto

lemma split_slash_elems: "s \<in> set (split_slash p) \<Longrightarrow> CHR ''/'' \<notin> set s"
  by (induction p arbitrary: s) (auto split: if_splits list.splits)

lemma norm_step_plain: "plain s \<Longrightarrow> norm_step a st s = s # st"
  by (simp add: norm_step_def plain_def)

lemma foldl_plain:
  "\<forall>s\<in>set t. plain s \<Longrightarrow> foldl (norm_step a) st (rev t) = t @ st"
  by (induction t arbitrary: st) (simp_all add: norm_step_plain)

lemma not_plain_dotdot: "\<not> plain ''..''"
  by (simp add: plain_def)

lemma norm_step_False_plain:
  assumes "\<forall>s\<in>set st. plain s" "CHR ''/'' \<notin> set x"
  shows "\<forall>s\<in>set (norm_step False st x). plain s"
proof (cases "x = [] \<or> x = ''.''")
  case True
  then show ?thesis using assms by (simp add: norm_step_def)
next
  case False
  show ?thesis
  proof (cases "x = ''..''")
    case True
    then show ?thesis using assms False
      by (cases st) (auto simp: norm_step_def not_plain_dotdot)
  next
    case nd: False
    have "plain x" using False nd assms(2) by (simp add: plain_def)
    then show ?thesis using assms False nd by (simp add: norm_step_def)
  qed
qed

lemma foldl_False_plain:
  "\<forall>s\<in>set st. plain s \<Longrightarrow> \<forall>x\<in>set xs. CHR ''/'' \<notin> set x
     \<Longrightarrow> \<forall>s\<in>set (foldl (norm_step False) st xs). plain s"
proof (induction xs arbitrary: st)
  case Nil
  then show ?case by simp
next
  case (Cons x xs)
  have "\<forall>s\<in>set (norm_step False st x). plain s"
    using Cons.prems by (intro norm_step_False_plain) simp_all
  then show ?case using Cons by simp
qed

lemma canon_plain: "\<forall>s\<in>set st. plain s \<Longrightarrow> \<forall>s\<in>set (canon st x). plain s"
  unfolding canon_def by (rule foldl_False_plain) (simp_all add: split_slash_elems)

lemma norm_step_skip: "norm_step a st [] = st" "norm_step a st ''.'' = st"
  by (simp_all add: norm_step_def)

lemma norm_step_up_Nil: "norm_step a [] ''..'' = (if a then [''..''] else [])"
  by (simp add: norm_step_def)

lemma norm_step_up_up:
  "norm_step a (''..'' # ts) ''..'' = (if a then ''..'' # ''..'' # ts else ''..'' # ts)"
  by (simp add: norm_step_def)

lemma norm_step_up_pop: "y \<noteq> ''..'' \<Longrightarrow> norm_step a (y # ts) ''..'' = ts"
  by (simp add: norm_step_def)

lemma plain_noslash: "plain s \<Longrightarrow> s \<noteq> [] \<and> CHR ''/'' \<notin> set s"
  by (simp add: plain_def)

lemma up_noslash: "''..'' \<noteq> [] \<and> CHR ''/'' \<notin> set ''..''"
  by simp

lemma plainI:
  "x \<noteq> [] \<Longrightarrow> x \<noteq> ''.'' \<Longrightarrow> x \<noteq> ''..'' \<Longrightarrow> CHR ''/'' \<notin> set x \<Longrightarrow> plain x"
  by (simp add: plain_def)

lemma canon_Nil: "canon st [] = st"
  by (simp add: canon_def norm_step_skip)

lemma canon_dot: "canon st ''.'' = st"
  by (simp add: canon_def norm_step_skip)

lemma canon_append_slash: "canon st (a @ CHR ''/'' # b) = canon (canon st a) b"
  by (simp add: canon_def split_slash_append)

lemma canon_slash_first: "canon st (CHR ''/'' # b) = canon st b"
  using canon_append_slash [of st "[]" b] by (simp add: canon_Nil)

lemma canon_slash_last: "canon st (a @ ''/'') = canon st a"
  using canon_append_slash [of st a "[]"] by (simp add: canon_Nil)

lemma climbing_elems: "climbing t \<Longrightarrow> s \<in> set t \<Longrightarrow> s \<noteq> [] \<and> CHR ''/'' \<notin> set s"
proof (induction t)
  case Nil
  then show ?case by simp
next
  case (Cons x t)
  show ?case
  proof (cases "x = ''..''")
    case True
    then have "\<forall>y\<in>set (x # t). y = ''..''" using Cons.prems(1) by simp
    then have "s = ''..''" using Cons.prems(2) by blast
    then show ?thesis using up_noslash by blast
  next
    case False
    then have "plain x" "climbing t" using Cons.prems(1) by simp_all
    then show ?thesis using Cons.IH Cons.prems(2) plain_noslash by fastforce
  qed
qed

lemma climbing_push: "plain x \<Longrightarrow> climbing t \<Longrightarrow> climbing (x # t)"
  by (simp add: not_plain_dotdot) (metis not_plain_dotdot)

lemma climbing_up: "\<forall>y\<in>set t. y = ''..'' \<Longrightarrow> climbing (''..'' # t)"
  by simp

lemma climbing_tl: "climbing (y # ts) \<Longrightarrow> y \<noteq> ''..'' \<Longrightarrow> climbing ts"
  by simp

lemma climbing_hd_up: "climbing (''..'' # ts) \<Longrightarrow> \<forall>y\<in>set (''..'' # ts). y = ''..''"
  by simp

lemma climbing_hd_plain: "climbing (y # ts) \<Longrightarrow> y \<noteq> ''..'' \<Longrightarrow> plain y"
  by simp

lemma climbing_step:
  assumes "climbing t" "CHR ''/'' \<notin> set x"
  shows "climbing (norm_step True t x)"
proof (cases "x = [] \<or> x = ''.''")
  case True
  then show ?thesis using assms(1) norm_step_skip by metis
next
  case False
  show ?thesis
  proof (cases "x = ''..''")
    case dd: True
    show ?thesis
    proof (cases t)
      case Nil
      then show ?thesis using dd by (simp only: norm_step_up_Nil if_True) simp
    next
      case (Cons y ts)
      show ?thesis
      proof (cases "y = ''..''")
        case True
        have "\<forall>z\<in>set (''..'' # ts). z = ''..''"
          using assms(1) Cons True climbing_hd_up by blast
        then have "climbing (''..'' # ''..'' # ts)" by (rule climbing_up)
        then show ?thesis using dd Cons True by (simp only: norm_step_up_up if_True)
      next
        case ny: False
        have "climbing ts" using assms(1) Cons ny climbing_tl by blast
        then show ?thesis using dd Cons norm_step_up_pop [OF ny, of True ts] by simp
      qed
    qed
  next
    case nd: False
    have "plain x" using False nd assms(2) by (intro plainI) simp_all
    then show ?thesis using assms(1) by (simp only: norm_step_plain climbing_push)
  qed
qed

lemma climbing_foldl:
  "climbing t \<Longrightarrow> \<forall>x\<in>set xs. CHR ''/'' \<notin> set x \<Longrightarrow> climbing (foldl (norm_step True) t xs)"
  by (induction xs arbitrary: t) (simp_all add: climbing_step)

lemma mix_step:
  assumes "climbing t" "CHR ''/'' \<notin> set x"
  shows "foldl (norm_step False) st (rev (norm_step True t x))
         = norm_step False (foldl (norm_step False) st (rev t)) x"
proof (cases "x = [] \<or> x = ''.''")
  case True
  then show ?thesis using norm_step_skip by metis
next
  case False
  show ?thesis
  proof (cases "x = ''..''")
    case dd: True
    show ?thesis
    proof (cases t)
      case Nil
      then show ?thesis using dd by (simp add: norm_step_up_Nil)
    next
      case (Cons y ts)
      show ?thesis
      proof (cases "y = ''..''")
        case True
        then show ?thesis using dd Cons by (simp add: norm_step_up_up)
      next
        case ny: False
        then have py: "plain y" using assms(1) Cons climbing_hd_plain by blast
        have l: "norm_step True t x = ts"
          using dd Cons norm_step_up_pop [OF ny, of True ts] by simp
        have "foldl (norm_step False) st (rev t)
              = y # foldl (norm_step False) st (rev ts)"
          using Cons py by (simp add: norm_step_plain)
        then have "norm_step False (foldl (norm_step False) st (rev t)) x
              = foldl (norm_step False) st (rev ts)"
          using dd norm_step_up_pop [OF ny, of False "foldl (norm_step False) st (rev ts)"] by simp
        then show ?thesis using l by simp
      qed
    qed
  next
    case nd: False
    have "plain x" using False nd assms(2) by (intro plainI) simp_all
    then show ?thesis by (simp add: norm_step_plain)
  qed
qed

lemma mix_foldl:
  "climbing t \<Longrightarrow> \<forall>x\<in>set xs. CHR ''/'' \<notin> set x \<Longrightarrow>
   foldl (norm_step False) st (rev (foldl (norm_step True) t xs))
   = foldl (norm_step False) (foldl (norm_step False) st (rev t)) xs"
proof (induction xs arbitrary: t)
  case Nil
  then show ?case by simp
next
  case (Cons x xs)
  have c: "climbing (norm_step True t x)" using Cons.prems by (simp add: climbing_step)
  have "foldl (norm_step False) st (rev (foldl (norm_step True) t (x # xs)))
        = foldl (norm_step False) (foldl (norm_step False) st (rev (norm_step True t x))) xs"
    using Cons.IH [OF c] Cons.prems by simp
  then show ?case using Cons.prems by (simp add: mix_step)
qed

lemma sep_concat_Nil: "\<forall>s\<in>set xs. s \<noteq> [] \<Longrightarrow> sep_concat xs = [] \<Longrightarrow> xs = []"
  by (induction xs rule: sep_concat.induct) simp_all

subsection \<open>\<^verbatim>\<open>resolve\<close> and \<^verbatim>\<open>normalize\<close>\<close>

lemma split_sep_concat:
  "xs \<noteq> [] \<Longrightarrow> \<forall>s\<in>set xs. CHR ''/'' \<notin> set s \<Longrightarrow> split_slash (sep_concat xs) = xs"
proof (induction xs rule: sep_concat.induct)
  case 1
  then show ?case by simp
next
  case (2 x)
  then show ?case by (simp add: split_slash_noslash)
next
  case (3 x y ys)
  then show ?case by (simp add: split_slash_append split_slash_noslash)
qed

lemma canon_plain_Nil: "\<forall>s\<in>set (canon [] x). plain s"
  by (rule canon_plain) simp

lemma canon_plain_cwd: "\<forall>s\<in>set (canon (canon [] c) x). plain s"
  by (rule canon_plain) (rule canon_plain_Nil)

lemma normalizeString_False: "normalizeString p False = sep_concat (rev (canon [] p))"
  by (simp add: normalizeString_def canon_def)

lemma resolve_single:
  assumes "isAbsolute cwd"
  shows "resolve cwd [x] =
         CHR ''/'' # sep_concat (rev (if isAbsolute x then canon [] x else canon (canon [] cwd) x))"
proof (cases "x = []")
  case True
  then show ?thesis using assms
    by (simp add: resolve_def isAbsolute_def normalizeString_False canon_slash_last canon_Nil)
next
  case False
  show ?thesis
  proof (cases "hd x = CHR ''/''")
    case True
    then show ?thesis using False
      by (simp add: resolve_def isAbsolute_def normalizeString_False canon_slash_last)
  next
    case nr: False
    have "canon [] (cwd @ CHR ''/'' # x @ ''/'') = canon (canon [] cwd) x"
      by (simp add: canon_append_slash canon_Nil)
    then show ?thesis using False nr assms
      by (simp add: resolve_def isAbsolute_def normalizeString_False)
  qed
qed

lemma canon_sep_concat:
  assumes "\<forall>s\<in>set t. s \<noteq> [] \<and> CHR ''/'' \<notin> set s"
  shows "canon st (sep_concat (rev t)) = foldl (norm_step False) st (rev t)"
proof (cases "t = []")
  case True
  then show ?thesis by (simp add: canon_Nil)
next
  case False
  then have "split_slash (sep_concat (rev t)) = rev t"
    using assms by (intro split_sep_concat) simp_all
  then show ?thesis by (simp add: canon_def)
qed

lemma resolve_absolute: "isAbsolute cwd \<Longrightarrow> isAbsolute (resolve cwd [x])"
  by (simp add: resolve_single) (simp add: isAbsolute_def)

lemma resolve_idem:
  assumes "isAbsolute cwd"
  shows "resolve cwd [resolve cwd [x]] = resolve cwd [x]"
proof -
  define t where "t = (if isAbsolute x then canon [] x else canon (canon [] cwd) x)"
  have pl: "\<forall>s\<in>set t. plain s"
    unfolding t_def using canon_plain_Nil [of x] canon_plain_cwd [of cwd x] by simp
  have r: "resolve cwd [x] = CHR ''/'' # sep_concat (rev t)"
    unfolding t_def using assms by (rule resolve_single)
  have "canon [] (CHR ''/'' # sep_concat (rev t)) = t"
    using pl by (simp add: canon_slash_first canon_sep_concat plain_noslash foldl_plain)
  moreover have "isAbsolute (CHR ''/'' # sep_concat (rev t))" by (simp add: isAbsolute_def)
  ultimately show ?thesis
    using resolve_single [OF assms, of "CHR ''/'' # sep_concat (rev t)"] r by simp
qed

lemma resolve_cong:
  assumes "isAbsolute cwd" "isAbsolute x = isAbsolute y"
    and "isAbsolute x \<Longrightarrow> canon [] x = canon [] y"
    and "\<not> isAbsolute x \<Longrightarrow> canon (canon [] cwd) x = canon (canon [] cwd) y"
  shows "resolve cwd [x] = resolve cwd [y]"
  using assms by (simp add: resolve_single)

lemma hd_sep_concat:
  "xs \<noteq> [] \<Longrightarrow> hd xs \<noteq> [] \<Longrightarrow> CHR ''/'' \<notin> set (hd xs) \<Longrightarrow> hd (sep_concat xs) \<noteq> CHR ''/''"
proof (induction xs rule: sep_concat.induct)
  case 1
  then show ?case by simp
next
  case (2 x)
  then show ?case by (cases x) auto
next
  case (3 x y ys)
  then show ?case by (cases x) auto
qed

lemma normalize_abs:
  assumes "isAbsolute j"
  shows "isAbsolute (normalize j) \<and> canon [] (normalize j) = canon [] j"
proof -
  define t where "t = canon [] j"
  have pl: "\<forall>s\<in>set t. plain s" unfolding t_def by (rule canon_plain_Nil)
  have ns: "normalizeString j False = sep_concat (rev t)"
    unfolding t_def by (rule normalizeString_False)
  have jn: "j \<noteq> []" using assms by (auto simp: isAbsolute_def)
  have ct: "canon [] (sep_concat (rev t)) = t"
    using pl by (simp add: canon_sep_concat plain_noslash foldl_plain)
  show ?thesis
  proof (cases "sep_concat (rev t) = []")
    case True
    then have "rev t = []" using pl by (intro sep_concat_Nil) (simp_all add: plain_noslash)
    then have "t = []" by simp
    moreover have "normalize j = ''/''"
      using True jn assms ns by (auto simp: normalize_def Let_def)
    ultimately show ?thesis
      unfolding t_def [symmetric] by (simp add: isAbsolute_def canon_slash_first canon_Nil)
  next
    case False
    have "normalize j = CHR ''/'' # sep_concat (rev t) \<or>
          normalize j = CHR ''/'' # sep_concat (rev t) @ ''/''"
      using False jn assms ns by (auto simp: normalize_def Let_def)
    then show ?thesis
      unfolding t_def [symmetric]
      using ct canon_slash_last [of "[]" "sep_concat (rev t)"]
      by (auto simp: isAbsolute_def canon_slash_first)
  qed
qed

lemma normalize_rel:
  assumes "\<not> isAbsolute j" "j \<noteq> []"
  shows "\<not> isAbsolute (normalize j) \<and> canon st (normalize j) = canon st j"
proof -
  define t where "t = foldl (norm_step True) [] (split_slash j)"
  have ns: "normalizeString j True = sep_concat (rev t)"
    unfolding t_def by (simp add: normalizeString_def)
  have cl: "climbing t"
    unfolding t_def by (rule climbing_foldl) (simp_all add: split_slash_elems)
  have el: "\<forall>s\<in>set t. s \<noteq> [] \<and> CHR ''/'' \<notin> set s"
    using cl climbing_elems by blast
  have mx: "foldl (norm_step False) st (rev t) = canon st j"
    unfolding t_def canon_def
    using mix_foldl [of "[]" "split_slash j" st] by (simp add: split_slash_elems)
  show ?thesis
  proof (cases "sep_concat (rev t) = []")
    case True
    then have "rev t = []" using el by (intro sep_concat_Nil) simp_all
    then have tn: "t = []" by simp
    have "normalize j = ''.'' \<or> normalize j = ''./''"
      using True assms ns by (auto simp: normalize_def Let_def)
    moreover have "canon st ''./'' = st"
      using canon_slash_last [of st "''.''"] by (simp add: canon_dot)
    moreover have "canon st j = st" using mx tn by simp
    ultimately show ?thesis by (auto simp: isAbsolute_def canon_dot)
  next
    case False
    then have tne: "rev t \<noteq> []" by auto
    have hd: "hd (sep_concat (rev t)) \<noteq> CHR ''/''"
      using tne el by (intro hd_sep_concat) (simp_all add: hd_rev)
    have ct: "canon st (sep_concat (rev t)) = canon st j"
      using el mx by (simp add: canon_sep_concat)
    have "normalize j = sep_concat (rev t) \<or> normalize j = sep_concat (rev t) @ ''/''"
      using False assms ns by (auto simp: normalize_def Let_def)
    then show ?thesis
      using ct hd False canon_slash_last [of st "sep_concat (rev t)"]
      by (auto simp: isAbsolute_def)
  qed
qed

lemma normalize_same:
  assumes "j \<noteq> []"
  shows "isAbsolute (normalize j) = isAbsolute j"
    and "isAbsolute j \<Longrightarrow> canon [] (normalize j) = canon [] j"
    and "\<not> isAbsolute j \<Longrightarrow> canon st (normalize j) = canon st j"
  using assms normalize_abs [of j] normalize_rel [of j st] by auto

lemma resolve_normalize:
  assumes "isAbsolute cwd" "j \<noteq> []"
  shows "resolve cwd [normalize j] = resolve cwd [j]"
  using assms(1) normalize_same [OF assms(2)] by (intro resolve_cong) simp_all


subsection \<open>\<^verbatim>\<open>dirname\<close>, \<^verbatim>\<open>basename\<close> and \<^verbatim>\<open>join\<close>\<close>

lemma join_two:
  "a \<noteq> [] \<Longrightarrow> join [a, b] = normalize (if b = [] then a else a @ CHR ''/'' # b)"
  by (simp add: join_def)

lemma resolve_join_two:
  assumes "isAbsolute cwd" "a \<noteq> []"
  shows "resolve cwd [join [a, b]] = resolve cwd [if b = [] then a else a @ CHR ''/'' # b]"
  using assms by (simp add: join_two resolve_normalize)

lemma takeWhile_to_slash:
  "CHR ''/'' \<notin> set xs \<Longrightarrow> takeWhile (\<lambda>c. c \<noteq> CHR ''/'') (xs @ CHR ''/'' # ys) = xs"
  by (induction xs) auto

lemma dropWhile_to_slash:
  "CHR ''/'' \<notin> set xs \<Longrightarrow> dropWhile (\<lambda>c. c \<noteq> CHR ''/'') (xs @ CHR ''/'' # ys) = CHR ''/'' # ys"
  by (induction xs) auto

lemma takeWhile_no_slash:
  "CHR ''/'' \<notin> set xs \<Longrightarrow> takeWhile (\<lambda>c. c \<noteq> CHR ''/'') xs = xs"
  by (induction xs) auto

lemma dropWhile_no_slash:
  "CHR ''/'' \<notin> set xs \<Longrightarrow> dropWhile (\<lambda>c. c \<noteq> CHR ''/'') xs = []"
  by (induction xs) auto

lemma dropWhile_slashes_none:
  "CHR ''/'' \<notin> set xs \<Longrightarrow> dropWhile (\<lambda>c. c = CHR ''/'') (xs @ ys) = xs @ ys \<or> xs = []"
  by (cases xs) auto

lemma dropWhile_slashes_keep:
  "CHR ''/'' \<notin> set xs \<Longrightarrow> xs \<noteq> [] \<Longrightarrow> dropWhile (\<lambda>c. c = CHR ''/'') (xs @ ys) = xs @ ys"
  by (cases xs) auto

lemma dropWhile_slashes_all:
  "CHR ''/'' \<notin> set xs \<Longrightarrow> dropWhile (\<lambda>c. c = CHR ''/'') xs = xs"
  by (cases xs) auto

lemma basename_noslash:
  assumes "CHR ''/'' \<notin> set p"
  shows "basename p = p"
proof -
  have t: "CHR ''/'' \<notin> set (rev p)" using assms by simp
  show ?thesis
    unfolding basename_def dropWhile_slashes_all [OF t] takeWhile_no_slash [OF t] by simp
qed

lemma dirname_noslash:
  assumes "CHR ''/'' \<notin> set p"
  shows "dirname p = ''.''"
proof (cases p)
  case Nil
  then show ?thesis by (simp add: dirname_def)
next
  case (Cons c cs)
  have t: "CHR ''/'' \<notin> set (rev (tl p))" and c: "hd p \<noteq> CHR ''/''" "p \<noteq> []"
    using assms Cons by auto
  show ?thesis
    unfolding dirname_def Let_def dropWhile_slashes_all [OF t] dropWhile_no_slash [OF t]
    using c by simp
qed

lemma basename_split:
  assumes "CHR ''/'' \<notin> set b" "b \<noteq> []"
  shows "basename (q @ CHR ''/'' # b) = b"
proof -
  have rb: "CHR ''/'' \<notin> set (rev b)" "rev b \<noteq> []" using assms by simp_all
  have r: "rev (q @ CHR ''/'' # b) = rev b @ CHR ''/'' # rev q" by simp
  show ?thesis
    unfolding basename_def r dropWhile_slashes_keep [OF rb] takeWhile_to_slash [OF rb(1)]
    by simp
qed

lemma dirname_scan:
  assumes "CHR ''/'' \<notin> set b" "b \<noteq> []"
  shows "dropWhile (\<lambda>c. c \<noteq> CHR ''/'')
           (dropWhile (\<lambda>c. c = CHR ''/'') (rev (q' @ CHR ''/'' # b))) = CHR ''/'' # rev q'"
proof -
  have rb: "CHR ''/'' \<notin> set (rev b)" "rev b \<noteq> []" using assms by simp_all
  have r: "rev (q' @ CHR ''/'' # b) = rev b @ CHR ''/'' # rev q'" by simp
  show ?thesis
    unfolding r dropWhile_slashes_keep [OF rb] dropWhile_to_slash [OF rb(1)] by (rule refl)
qed

lemma dirname_root_file:
  assumes "CHR ''/'' \<notin> set b"
  shows "dirname (CHR ''/'' # b) = ''/''"
proof -
  have t: "CHR ''/'' \<notin> set (rev b)" using assms by simp
  have tl: "tl (CHR ''/'' # b) = b" by simp
  show ?thesis
    unfolding dirname_def Let_def tl dropWhile_slashes_all [OF t] dropWhile_no_slash [OF t]
    by simp
qed

lemma dirname_split_Cons:
  assumes "CHR ''/'' \<notin> set b" "b \<noteq> []"
  shows "dirname ((c # q') @ CHR ''/'' # b) =
         (if c = CHR ''/'' \<and> q' = [] then ''//'' else c # q')"
proof -
  have tl: "tl ((c # q') @ CHR ''/'' # b) = q' @ CHR ''/'' # b" by simp
  have len: "length (CHR ''/'' # rev q') = Suc (length q')" by simp
  have tk: "take (Suc (length q')) ((c # q') @ CHR ''/'' # b) = c # q'" by simp
  have ne: "(c # q') @ CHR ''/'' # b \<noteq> []" "CHR ''/'' # rev q' \<noteq> []" by simp_all
  have hd: "hd ((c # q') @ CHR ''/'' # b) = c" by simp
  show ?thesis
    unfolding dirname_def Let_def tl dirname_scan [OF assms] len tk hd
    using ne by simp
qed

lemma dirname_split:
  assumes "CHR ''/'' \<notin> set b" "b \<noteq> []"
  shows "dirname (q @ CHR ''/'' # b) =
         (if q = [] then ''/'' else if q = ''/'' then ''//'' else q)"
proof (cases q)
  case Nil
  then show ?thesis using dirname_root_file [OF assms(1)] by simp
next
  case (Cons c q')
  then show ?thesis using dirname_split_Cons [OF assms, of c q'] by simp
qed

lemma resolve_dot_prefix:
  assumes "isAbsolute cwd" "CHR ''/'' \<notin> set p"
  shows "resolve cwd [if p = [] then ''.'' else ''.'' @ CHR ''/'' # p] = resolve cwd [p]"
proof (cases "p = []")
  case True
  have "resolve cwd [''.''] = resolve cwd [[]]"
    using assms(1) by (intro resolve_cong) (simp_all add: isAbsolute_def canon_dot canon_Nil)
  then show ?thesis using True by simp
next
  case False
  have na: "\<not> isAbsolute p" using assms(2) False by (cases p) (auto simp: isAbsolute_def)
  have "canon st (''.'' @ CHR ''/'' # p) = canon st p" for st
    by (simp only: canon_append_slash canon_dot)
  moreover have "\<not> isAbsolute (''.'' @ CHR ''/'' # p)" by (simp add: isAbsolute_def)
  ultimately have "resolve cwd [''.'' @ CHR ''/'' # p] = resolve cwd [p]"
    using assms(1) na by (intro resolve_cong) simp_all
  then show ?thesis using False by simp
qed

lemma resolve_extra_slash:
  assumes "isAbsolute cwd"
  shows "resolve cwd [CHR ''/'' # CHR ''/'' # p] = resolve cwd [CHR ''/'' # p]"
  using assms by (intro resolve_cong) (simp_all add: isAbsolute_def canon_slash_first)

lemma resolve_dirname_basename:
  assumes "isAbsolute cwd" "\<not> (p \<noteq> [] \<and> last p = CHR ''/'')"
  shows "resolve cwd [join [dirname p, basename p]] = resolve cwd [p]"
proof (cases "CHR ''/'' \<in> set p")
  case False
  then have "dirname p = ''.''" "basename p = p"
    by (simp_all add: dirname_noslash basename_noslash)
  then have "resolve cwd [join [dirname p, basename p]]
             = resolve cwd [if p = [] then ''.'' else ''.'' @ CHR ''/'' # p]"
    using resolve_join_two [OF assms(1), of "''.''" p] by simp
  then show ?thesis using resolve_dot_prefix [OF assms(1) False] by simp
next
  case True
  then obtain q b where p: "p = q @ CHR ''/'' # b" and nb: "CHR ''/'' \<notin> set b"
    using split_list_last [of "CHR ''/''" p] by blast
  have bne: "b \<noteq> []" using assms(2) p by auto
  have bn: "basename p = b" unfolding p using nb bne by (rule basename_split)
  have dn: "dirname p = (if q = [] then ''/'' else if q = ''/'' then ''//'' else q)"
    unfolding p using nb bne by (rule dirname_split)
  have dne: "dirname p \<noteq> []" using dn by simp
  have j: "resolve cwd [join [dirname p, basename p]] = resolve cwd [dirname p @ CHR ''/'' # b]"
    using resolve_join_two [OF assms(1) dne, of "basename p"] bn bne by simp
  show ?thesis
  proof (cases "q = []")
    case True
    then show ?thesis using j dn p resolve_extra_slash [OF assms(1), of b] by simp
  next
    case qn: False
    show ?thesis
    proof (cases "q = ''/''")
      case True
      then show ?thesis
        using j dn p resolve_extra_slash [OF assms(1), of "CHR ''/'' # b"] by simp
    next
      case False
      then show ?thesis using j dn p qn by simp
    qed
  qed
qed

section \<open>The command\<close>

lemmas io_defs = bnd_def ret_def throw_def lstat_def pathExists_def readJSON_def prompt_def
  call_def awaited_def ensureDir_def yarn_install_def runBuild_def yarn_pack_def
  mkdirp_unawaited_def suspend_def

text \<open>With nothing in flight an \<^verbatim>\<open>await\<close> leaves the state as it is.\<close>

lemma turn_quiet: "turn h (quiet w) = Inr (quiet w)"
  by (simp add: turn_def quiet_def)

lemma turn_none: "inflight s = None \<Longrightarrow> turn h s = Inr s"
  by (simp add: turn_def)

lemma world_quiet: "world (quiet w) = w"
  by (simp add: quiet_def)

lemma run_after_paths:
  "resolvePaths h a s = (t, Inr ((i, f), s1)) \<Longrightarrow>
   run h a s = (t @ fst (pipeline h i f s1), snd (pipeline h i f s1))"
  by (simp add: run_def bnd_def split: prod.splits)

lemma join_dist_index: "join [''dist'', ''index.js''] = ''dist/index.js''"
  by code_simp

text \<open>
  The scenario of the specification: a plugin \<^verbatim>\<open>my-plugin\<close> at version \<^verbatim>\<open>1.2.3\<close> with an
  \<^verbatim>\<open>index.tsx\<close> and no \<^verbatim>\<open>bundleMain\<close>, bundled to the existing directory \<^verbatim>\<open>./dist/\<close>.
\<close>

lemma scenario:
  "run (test_host True test_manifest)
     \<lparr> directory = ''plugin'', output = ''./dist/'' \<rparr> (quiet test_tree)
   = ([Install ''/work/plugin'', EnsureDir ''/work/plugin/dist'',
       RunBuild ''/work/plugin'' (Str ''index.tsx'') ''/work/plugin/dist/index.js'',
       Pack ''/work/plugin'' ''/work/dist/my-plugin-1.2.3.tgz''],
      Inr ((), quiet ([(''/work/dist/my-plugin-1.2.3.tgz'', False),
                       (''/work/plugin/dist/index.js'', False),
                       (''/work/plugin/dist'', True),
                       (''/work/plugin/node_modules'', True)] @ test_tree)))"
  by code_simp

text \<open>Before the pipeline the command asks and creates at most; it runs no tool.\<close>

lemma asks_only_bnd:
  assumes "asks_only m" "\<And>x. asks_only (f x)"
  shows "asks_only (bnd m f)"
  unfolding asks_only_def
proof
  fix s
  obtain t r where ms: "m s = (t, r)" by (cases "m s")
  have t: "set t \<subseteq> range Prompt \<union> range Mkdirp"
    using assms(1) ms unfolding asks_only_def by (metis fst_conv)
  show "set (fst (bnd m f s)) \<subseteq> range Prompt \<union> range Mkdirp"
  proof (cases r)
    case (Inl e)
    then show ?thesis using ms t by (simp add: bnd_def)
  next
    case (Inr p)
    obtain x s' where p: "p = (x, s')" by (cases p)
    obtain t' r' where fs: "f x s' = (t', r')" by (cases "f x s'")
    have "set t' \<subseteq> range Prompt \<union> range Mkdirp"
      using assms(2) [of x] fs unfolding asks_only_def by (metis fst_conv)
    then show ?thesis using ms t Inr p fs by (simp add: bnd_def)
  qed
qed

lemma asks_only_ret: "asks_only (ret x)"
  by (simp add: asks_only_def ret_def)

lemma asks_only_throw: "asks_only (throw e)"
  by (simp add: asks_only_def throw_def)

lemma asks_only_suspend: "asks_only (suspend h)"
  by (simp add: asks_only_def suspend_def split: sum.splits)

lemma asks_only_lstat: "asks_only (lstat h p)"
  unfolding lstat_def
  by (intro asks_only_bnd asks_only_suspend) (simp add: asks_only_def split: sum.splits)

lemma asks_only_pathExists: "asks_only (pathExists h p)"
  unfolding pathExists_def
  by (intro asks_only_bnd asks_only_suspend) (simp add: asks_only_def)

lemma asks_only_readJSON: "asks_only (readJSON h p)"
  unfolding readJSON_def
  by (intro asks_only_bnd asks_only_suspend) (simp add: asks_only_def split: sum.splits)

lemma asks_only_prompt: "asks_only (prompt h msg)"
  unfolding prompt_def
  by (intro asks_only_bnd asks_only_suspend)
     (simp_all add: asks_only_def call_def split: sum.splits)

lemma asks_only_mkdirp: "asks_only (mkdirp_unawaited p)"
  by (simp add: asks_only_def mkdirp_unawaited_def)

lemma asks_only_derive: "asks_only (deriveOutputFileName h d)"
  unfolding deriveOutputFileName_def
  by (intro asks_only_bnd asks_only_readJSON asks_only_ret)

lemma asks_only_confirmCreate: "asks_only (confirmCreate h dir)"
  unfolding confirmCreate_def
  by (intro asks_only_bnd asks_only_pathExists)
     (auto intro!: asks_only_bnd asks_only_prompt asks_only_mkdirp asks_only_throw asks_only_ret)

lemma asks_only_resolveOutput: "asks_only (resolveOutput h a)"
  unfolding resolveOutput_def
  by (intro asks_only_bnd asks_only_pathExists)
     (auto intro!: asks_only_bnd asks_only_lstat asks_only_derive asks_only_ret
        asks_only_confirmCreate split: prod.splits option.splits)

lemma asks_only_resolvePaths: "asks_only (resolvePaths h a)"
  unfolding resolvePaths_def
  by (intro asks_only_bnd asks_only_lstat)
     (auto intro!: asks_only_bnd asks_only_resolveOutput asks_only_ret asks_only_throw)

lemma resolvePaths_events:
  "resolvePaths h a s = (t, r) \<Longrightarrow> set t \<subseteq> range Prompt \<union> range Mkdirp"
  using asks_only_resolvePaths [of h a] unfolding asks_only_def by (metis fst_conv)

text \<open>One awaited call, when the process lives through the \<^verbatim>\<open>await\<close> and when it does not.\<close>

lemma awaited_step:
  "turn h s = Inr s' \<Longrightarrow>
   awaited h ev f s =
     (case f (world s') of
        Inl m \<Rightarrow> ([ev], Inl (Thrown m))
      | Inr w' \<Rightarrow> ([ev], Inr ((), s' \<lparr> world := w' \<rparr>)))"
  by (simp add: awaited_def bnd_def call_def suspend_def split: sum.splits)


lemma readJSON_step:
  "turn h s = Inr s' \<Longrightarrow>
   readJSON h p s =
     (case h_readJSON h (world s') p of
        Inl m \<Rightarrow> ([], Inl (Thrown m))
      | Inr pj \<Rightarrow> ([], Inr (pj, s')))"
  by (simp add: readJSON_def bnd_def suspend_def split: sum.splits)





subsection \<open>The entry\<close>

text \<open>
  Claim C1, as amended. For a manifest whose \<^verbatim>\<open>main\<close> is absent or null, the entry is
  \<^verbatim>\<open>index.tsx\<close> when that file exists in the input directory and \<^verbatim>\<open>index.jsx\<close>
  otherwise, whether or not \<^verbatim>\<open>index.jsx\<close> exists: the entry is always a string, never
  undefined, and no event is recorded. The first part is the statement for a run with
  nothing in flight, the second for any state whose \<^verbatim>\<open>await\<close> the process lives through,
  the third for every state.
\<close>

theorem resolveEntry_without_main:
  assumes "nullish (main pj)"
  shows "resolveEntry h inputDirectory pj (quiet w)
         = ([], Inr (Str (if h_pathExists h w (join [inputDirectory, ''index.tsx''])
                          then ''index.tsx'' else ''index.jsx''), quiet w))
       \<and> (turn h s = Inr s'
          \<longrightarrow> resolveEntry h inputDirectory pj s
              = ([], Inr (Str (if h_pathExists h (world s') (join [inputDirectory, ''index.tsx''])
                               then ''index.tsx'' else ''index.jsx''), s')))
       \<and> (resolveEntry h inputDirectory pj s = (t, Inr (e, s''))
          \<longrightarrow> e = Str ''index.tsx'' \<or> e = Str ''index.jsx'')"
  using assms
  by (auto simp: resolveEntry_def io_defs turn_quiet world_quiet split: sum.splits)

theorem resolveEntry_without_main_witness:
  "resolveEntry (test_host True test_manifest) ''/work/plugin'' test_manifest (quiet test_tree)
   = ([], Inr (Str ''index.tsx'', quiet test_tree))"
proof -
  have 1: "nullish (main test_manifest)" by (simp add: test_manifest_def)
  have 2: "h_pathExists (test_host True test_manifest) test_tree
             (join [''/work/plugin'', ''index.tsx''])" by code_simp
  show ?thesis
    using resolveEntry_without_main
      [OF 1, of "test_host True test_manifest" "''/work/plugin''" test_tree] 2
    by simp
qed

text \<open>
  Claim C1 as the specification states it fails where neither file exists: on
  \<open>bare_tree\<close> the specification's entry is undefined, the command's is \<^verbatim>\<open>index.jsx\<close>.
\<close>

theorem entry_undefined_counterexample:
  "nullish (main test_manifest)
   \<and> spec_entry (test_host True test_manifest) bare_tree ''/work/plugin'' = Undefined
   \<and> resolveEntry (test_host True test_manifest) ''/work/plugin'' test_manifest
        (quiet bare_tree)
       = ([], Inr (Str ''index.jsx'', quiet bare_tree))
   \<and> resolveEntry (test_host True test_manifest) ''/work/plugin'' test_manifest
        (quiet bare_tree)
       \<noteq> ([], Inr (spec_entry (test_host True test_manifest) bare_tree ''/work/plugin'',
                    quiet bare_tree))"
proof -
  have 1: "nullish (main test_manifest)" by (simp add: test_manifest_def)
  have 2: "spec_entry (test_host True test_manifest) bare_tree ''/work/plugin'' = Undefined"
    by code_simp
  have 3: "resolveEntry (test_host True test_manifest) ''/work/plugin'' test_manifest
             (quiet bare_tree)
       = ([], Inr (Str ''index.jsx'', quiet bare_tree))"
    by code_simp
  show ?thesis using 1 2 3 by simp
qed

subsection \<open>The output file\<close>

text \<open>
  Claim C2. When the input is a directory, the output target exists and \<^verbatim>\<open>lstat\<close> reports
  a directory, and the manifest can be read, the output file is the target joined with
  \<^verbatim>\<open><name>-<version>.tgz\<close> and resolved against the working directory; it is an absolute
  path. (The code resolves twice, lines 53 and 95; the second time changes nothing.)
\<close>

theorem output_in_existing_directory:
  assumes "isAbsolute (h_cwd h)"
    and "h_lstat h w (directory a) = Inr st" and "isDirectory st"
    and "h_pathExists h w (output a)"
    and "h_lstat h w (output a) = Inr ost" and "isDirectory ost"
    and "h_readJSON h w (join [directory a, ''package.json'']) = Inr pj"
  shows "resolvePaths h a (quiet w)
         = ([], Inr ((resolve (h_cwd h) [directory a],
                      resolve (h_cwd h) [join [output a, outputFileName pj]]), quiet w))
       \<and> isAbsolute (resolve (h_cwd h) [join [output a, outputFileName pj]])
       \<and> outputFileName pj
           = (if falsy (name pj) then [] else to_string (name pj))
               @ ''-'' @ to_string (version pj) @ ''.tgz''"
  using assms
  by (simp add: resolvePaths_def resolveOutput_def deriveOutputFileName_def io_defs
      turn_quiet world_quiet resolve_idem resolve_absolute outputFileName_def)

theorem output_in_existing_directory_witness:
  "resolvePaths (test_host True test_manifest)
     \<lparr> directory = ''plugin'', output = ''./dist/'' \<rparr> (quiet test_tree)
   = ([], Inr ((''/work/plugin'', ''/work/dist/my-plugin-1.2.3.tgz''), quiet test_tree))"
proof -
  let ?h = "test_host True test_manifest"
  let ?a = "\<lparr> directory = ''plugin'', output = ''./dist/'' \<rparr>"
  have 0: "isAbsolute (h_cwd ?h)" by code_simp
  have 1: "h_lstat ?h test_tree (directory ?a) = Inr \<lparr> isDirectory = True \<rparr>"
    by code_simp
  have 2: "isDirectory \<lparr> isDirectory = True \<rparr>" by simp
  have 3: "h_pathExists ?h test_tree (output ?a)" by code_simp
  have 4: "h_lstat ?h test_tree (output ?a) = Inr \<lparr> isDirectory = True \<rparr>"
    by code_simp
  have 5: "h_readJSON ?h test_tree (join [directory ?a, ''package.json'']) = Inr test_manifest"
    by code_simp
  have 6: "resolve (h_cwd ?h) [directory ?a] = ''/work/plugin''" by code_simp
  have 7: "resolve (h_cwd ?h) [join [output ?a, outputFileName test_manifest]]
           = ''/work/dist/my-plugin-1.2.3.tgz''" by code_simp
  show ?thesis using output_in_existing_directory [OF 0 1 2 3 4 2 5] 6 7 by simp
qed

text \<open>
  Claim C3. The input is a directory and the output target does not exist. If the target
  ends with \<^verbatim>\<open>/\<close>, the operator is asked, and on a yes the directory creation is started
  and the output file is the target joined with the derived name; the manifest is read at
  the first \<^verbatim>\<open>await\<close> after the creation was started, in the state \<open>s1\<close> that this
  \<^verbatim>\<open>await\<close> leaves (the creation fulfilled, rejected and warned about, or still in
  flight). If the target does not end with \<^verbatim>\<open>/\<close>, then whenever an output file is
  produced it is \<^verbatim>\<open>dirname\<close> joined with \<^verbatim>\<open>basename\<close> of the target: the name is never
  derived, so the trailing separator alone decides.
\<close>

theorem output_trailing_separator:
  assumes "h_lstat h w (directory a) = Inr st" and "isDirectory st"
    and "\<not> h_pathExists h w (output a)"
  shows "(output a \<noteq> [] \<and> last (output a) = CHR ''/''
          \<and> h_prompt h w (createMessage (output a)) = Inr True
          \<and> turn h \<lparr> world = w, inflight = Some (output a, 0) \<rparr> = Inr s1
          \<and> h_readJSON h (world s1) (join [directory a, ''package.json'']) = Inr pj
          \<longrightarrow> resolvePaths h a (quiet w)
              = ([Prompt (createMessage (output a)), Mkdirp (output a)],
                 Inr ((resolve (h_cwd h) [directory a],
                       resolve (h_cwd h) [join [output a, outputFileName pj]]), s1)))
       \<and> (\<not> (output a \<noteq> [] \<and> last (output a) = CHR ''/'')
          \<and> resolvePaths h a (quiet w) = (t, Inr ((i, f), s2))
          \<longrightarrow> f = resolve (h_cwd h) [join [dirname (output a), basename (output a)]])"
proof (intro conjI impI)
  assume b: "output a \<noteq> [] \<and> last (output a) = CHR ''/''
          \<and> h_prompt h w (createMessage (output a)) = Inr True
          \<and> turn h \<lparr> world = w, inflight = Some (output a, 0) \<rparr> = Inr s1
          \<and> h_readJSON h (world s1) (join [directory a, ''package.json'']) = Inr pj"
  then have df: "dirAndFile (output a) = (output a, None)"
    by (simp add: dirAndFile_def)
  have q: "quiet w \<lparr> inflight := Some (output a, 0) \<rparr>
           = \<lparr> world = w, inflight = Some (output a, 0) \<rparr>"
    by (simp add: quiet_def)
  show "resolvePaths h a (quiet w)
              = ([Prompt (createMessage (output a)), Mkdirp (output a)],
                 Inr ((resolve (h_cwd h) [directory a],
                       resolve (h_cwd h) [join [output a, outputFileName pj]]), s1))"
    using assms b df
    by (simp add: resolvePaths_def resolveOutput_def confirmCreate_def
        deriveOutputFileName_def io_defs turn_quiet world_quiet q)
next
  assume b: "\<not> (output a \<noteq> [] \<and> last (output a) = CHR ''/'')
          \<and> resolvePaths h a (quiet w) = (t, Inr ((i, f), s2))"
  then have df: "dirAndFile (output a) = (dirname (output a), Some (basename (output a)))"
    by (simp add: dirAndFile_def)
  show "f = resolve (h_cwd h) [join [dirname (output a), basename (output a)]]"
    using assms b df
    by (auto simp: resolvePaths_def resolveOutput_def confirmCreate_def io_defs
        turn_quiet world_quiet split: if_splits sum.splits prod.splits)
qed

theorem output_trailing_separator_witness:
  "resolvePaths (test_host True test_manifest)
     \<lparr> directory = ''plugin'', output = ''new/'' \<rparr> (quiet test_tree)
   = ([Prompt (createMessage ''new/''), Mkdirp ''new/''],
      Inr ((''/work/plugin'', ''/work/new/my-plugin-1.2.3.tgz''),
           quiet ((''/work/new'', True) # test_tree)))
   \<and> resolvePaths (test_host True test_manifest)
     \<lparr> directory = ''plugin'', output = ''dist/out'' \<rparr> (quiet test_tree)
   = ([], Inr ((''/work/plugin'', ''/work/dist/out''), quiet test_tree))
   \<and> ''/work/dist/out''
       = resolve ''/work'' [join [dirname ''dist/out'', basename ''dist/out'']]"
proof -
  let ?h = "test_host True test_manifest"
  let ?a = "\<lparr> directory = ''plugin'', output = ''new/'' \<rparr>"
  let ?b = "\<lparr> directory = ''plugin'', output = ''dist/out'' \<rparr>"
  let ?s1 = "quiet ((''/work/new'', True) # test_tree)"
  have 1: "h_lstat ?h test_tree (directory ?a) = Inr \<lparr> isDirectory = True \<rparr>"
    by code_simp
  have i1: "h_lstat ?h test_tree (directory ?b) = Inr \<lparr> isDirectory = True \<rparr>"
    by code_simp
  have 2: "isDirectory \<lparr> isDirectory = True \<rparr>" by simp
  have 3: "\<not> h_pathExists ?h test_tree (output ?a)" by code_simp
  have i3: "\<not> h_pathExists ?h test_tree (output ?b)" by code_simp
  have 4: "output ?a \<noteq> [] \<and> last (output ?a) = CHR ''/''
          \<and> h_prompt ?h test_tree (createMessage (output ?a)) = Inr True
          \<and> turn ?h \<lparr> world = test_tree, inflight = Some (output ?a, 0) \<rparr> = Inr ?s1
          \<and> h_readJSON ?h (world ?s1) (join [directory ?a, ''package.json''])
              = Inr test_manifest"
    by code_simp
  have 6: "resolve (h_cwd ?h) [directory ?a] = ''/work/plugin''"
          "resolve (h_cwd ?h) [join [output ?a, outputFileName test_manifest]]
           = ''/work/new/my-plugin-1.2.3.tgz''"
    by code_simp+
  have a: "resolvePaths ?h ?a (quiet test_tree)
              = ([Prompt (createMessage (output ?a)), Mkdirp (output ?a)],
                 Inr ((resolve (h_cwd ?h) [directory ?a],
                       resolve (h_cwd ?h) [join [output ?a, outputFileName test_manifest]]),
                      ?s1))"
    using output_trailing_separator [OF 1 2 3, of ?s1 test_manifest] 4 by blast
  have 7: "\<not> (output ?b \<noteq> [] \<and> last (output ?b) = CHR ''/'')
           \<and> resolvePaths ?h ?b (quiet test_tree)
               = ([], Inr ((''/work/plugin'', ''/work/dist/out''), quiet test_tree))"
    by code_simp
  have b: "''/work/dist/out''
           = resolve (h_cwd ?h) [join [dirname (output ?b), basename (output ?b)]]"
    using output_trailing_separator
      [OF i1 2 i3, of _ test_manifest "[]" "''/work/plugin''" "''/work/dist/out''"
        "quiet test_tree"]
      7 by blast
  have c: "h_cwd ?h = ''/work''" by (simp add: test_host_def)
  show ?thesis using a b 6 7 c by simp
qed

text \<open>
  Claim C4. The input is a directory. If the output target exists and \<^verbatim>\<open>lstat\<close> does not
  report a directory, the output file is the target resolved against the working
  directory. If the target does not exist, does not end with \<^verbatim>\<open>/\<close>, and its
  \<^verbatim>\<open>dirname\<close> exists, the output file is again the target resolved against the working
  directory: putting \<^verbatim>\<open>dirname\<close> and \<^verbatim>\<open>basename\<close> together again gives the same file.
  In both cases no name is derived, nothing is asked and nothing is created.
\<close>

theorem output_explicit_file:
  assumes "h_lstat h w (directory a) = Inr st" and "isDirectory st"
  shows "(h_pathExists h w (output a) \<and> h_lstat h w (output a) = Inr ost \<and> \<not> isDirectory ost
          \<longrightarrow> resolvePaths h a (quiet w)
              = ([], Inr ((resolve (h_cwd h) [directory a],
                           resolve (h_cwd h) [output a]), quiet w)))
       \<and> (\<not> h_pathExists h w (output a)
          \<and> \<not> (output a \<noteq> [] \<and> last (output a) = CHR ''/'')
          \<and> h_pathExists h w (dirname (output a)) \<and> isAbsolute (h_cwd h)
          \<longrightarrow> resolvePaths h a (quiet w)
              = ([], Inr ((resolve (h_cwd h) [directory a],
                           resolve (h_cwd h) [output a]), quiet w)))"
proof (intro conjI impI)
  assume "h_pathExists h w (output a) \<and> h_lstat h w (output a) = Inr ost \<and> \<not> isDirectory ost"
  then show "resolvePaths h a (quiet w)
     = ([], Inr ((resolve (h_cwd h) [directory a], resolve (h_cwd h) [output a]), quiet w))"
    using assms
    by (simp add: resolvePaths_def resolveOutput_def io_defs turn_quiet world_quiet)
next
  assume b: "\<not> h_pathExists h w (output a)
          \<and> \<not> (output a \<noteq> [] \<and> last (output a) = CHR ''/'')
          \<and> h_pathExists h w (dirname (output a)) \<and> isAbsolute (h_cwd h)"
  then have df: "dirAndFile (output a) = (dirname (output a), Some (basename (output a)))"
    by (simp add: dirAndFile_def)
  have r: "resolve (h_cwd h) [join [dirname (output a), basename (output a)]]
           = resolve (h_cwd h) [output a]"
    using b by (intro resolve_dirname_basename) simp_all
  show "resolvePaths h a (quiet w)
     = ([], Inr ((resolve (h_cwd h) [directory a], resolve (h_cwd h) [output a]), quiet w))"
    using assms b df r
    by (simp add: resolvePaths_def resolveOutput_def confirmCreate_def io_defs
        turn_quiet world_quiet)
qed

theorem output_explicit_file_witness:
  "resolvePaths (test_host True test_manifest)
     \<lparr> directory = ''plugin'', output = ''old.tgz'' \<rparr> (quiet test_tree)
   = ([], Inr ((''/work/plugin'', ''/work/old.tgz''), quiet test_tree))
   \<and> resolvePaths (test_host True test_manifest)
     \<lparr> directory = ''plugin'', output = ''dist/out.tgz'' \<rparr> (quiet test_tree)
   = ([], Inr ((''/work/plugin'', ''/work/dist/out.tgz''), quiet test_tree))"
proof -
  let ?h = "test_host True test_manifest"
  let ?a = "\<lparr> directory = ''plugin'', output = ''old.tgz'' \<rparr>"
  let ?b = "\<lparr> directory = ''plugin'', output = ''dist/out.tgz'' \<rparr>"
  have 1: "h_lstat ?h test_tree (directory ?a) = Inr \<lparr> isDirectory = True \<rparr>"
    by code_simp
  have i1: "h_lstat ?h test_tree (directory ?b) = Inr \<lparr> isDirectory = True \<rparr>"
    by code_simp
  have 2: "isDirectory \<lparr> isDirectory = True \<rparr>" by simp
  have 3: "h_pathExists ?h test_tree (output ?a) \<and>
           h_lstat ?h test_tree (output ?a) = Inr \<lparr> isDirectory = False \<rparr> \<and>
           \<not> isDirectory \<lparr> isDirectory = False \<rparr>"
    by code_simp
  have 4: "\<not> h_pathExists ?h test_tree (output ?b)
           \<and> \<not> (output ?b \<noteq> [] \<and> last (output ?b) = CHR ''/'')
           \<and> h_pathExists ?h test_tree (dirname (output ?b)) \<and> isAbsolute (h_cwd ?h)"
    by code_simp
  have 5: "resolve (h_cwd ?h) [directory ?a] = ''/work/plugin''"
          "resolve (h_cwd ?h) [output ?a] = ''/work/old.tgz''"
          "resolve (h_cwd ?h) [directory ?b] = ''/work/plugin''"
          "resolve (h_cwd ?h) [output ?b] = ''/work/dist/out.tgz''"
    by code_simp+
  have a: "resolvePaths ?h ?a (quiet test_tree)
           = ([], Inr ((resolve (h_cwd ?h) [directory ?a], resolve (h_cwd ?h) [output ?a]),
                       quiet test_tree))"
    using output_explicit_file [OF 1 2, of "\<lparr> isDirectory = False \<rparr>"] 3 by blast
  have b: "resolvePaths ?h ?b (quiet test_tree)
           = ([], Inr ((resolve (h_cwd ?h) [directory ?b], resolve (h_cwd ?h) [output ?b]),
                       quiet test_tree))"
    using output_explicit_file [OF i1 2, of "\<lparr> isDirectory = False \<rparr>"] 4 by blast
  show ?thesis using a b 5 by simp
qed

subsection \<open>Failures before the pipeline\<close>

text \<open>
  Claim C5. The input is a directory, the output target does not exist, the directory
  computed for it does not exist either, and the operator answers no. Then the run ends
  with the error \<^verbatim>\<open>Output directory <dir> not found.\<close> raised by \<^verbatim>\<open>this.error\<close>, and the
  question is the only event: nothing is created, installed, compiled or packed.
\<close>

theorem declined_creation_fails:
  assumes "h_lstat h w (directory a) = Inr st" and "isDirectory st"
    and "\<not> h_pathExists h w (output a)"
    and "dirAndFile (output a) = (dir, file)"
    and "\<not> h_pathExists h w dir"
    and "h_prompt h w (createMessage dir) = Inr False"
  shows "run h a (quiet w)
         = ([Prompt (createMessage dir)],
            Inl (CLIError (''Output directory '' @ dir @ '' not found.'')))"
  using assms
  by (simp add: run_def resolvePaths_def resolveOutput_def confirmCreate_def io_defs
      turn_quiet world_quiet)

theorem declined_creation_fails_witness:
  "run (test_host False test_manifest)
     \<lparr> directory = ''plugin'', output = ''new/x.tgz'' \<rparr> (quiet test_tree)
   = ([Prompt (createMessage ''new'')], Inl (CLIError ''Output directory new not found.''))"
proof -
  let ?h = "test_host False test_manifest"
  let ?a = "\<lparr> directory = ''plugin'', output = ''new/x.tgz'' \<rparr>"
  have 1: "h_lstat ?h test_tree (directory ?a) = Inr \<lparr> isDirectory = True \<rparr>"
    by code_simp
  have 2: "isDirectory \<lparr> isDirectory = True \<rparr>" by simp
  have 3: "\<not> h_pathExists ?h test_tree (output ?a)" by code_simp
  have 4: "dirAndFile (output ?a) = (''new'', Some ''x.tgz'')" by code_simp
  have 5: "\<not> h_pathExists ?h test_tree ''new''" by code_simp
  have 6: "h_prompt ?h test_tree (createMessage ''new'') = Inr False"
    by (simp add: test_host_def)
  show ?thesis using declined_creation_fails [OF 1 2 3 4 5 6] by simp
qed

text \<open>
  Claim C6. When \<^verbatim>\<open>lstat\<close> of the input succeeds and does not report a directory, the run
  ends with the error \<^verbatim>\<open>Plugin source <directory> is not a directory.\<close> and the trace is
  empty: no question, no creation, no installation, no compilation, no packing.
\<close>

theorem input_not_directory_fails:
  assumes "h_lstat h w (directory a) = Inr st" and "\<not> isDirectory st"
  shows "run h a (quiet w)
         = ([], Inl (CLIError (''Plugin source '' @ directory a @ '' is not a directory.'')))"
  using assms by (simp add: run_def resolvePaths_def io_defs turn_quiet world_quiet)

theorem input_not_directory_fails_witness:
  "run (test_host True test_manifest) \<lparr> directory = ''old.tgz'', output = ''.'' \<rparr>
     (quiet test_tree)
   = ([], Inl (CLIError ''Plugin source old.tgz is not a directory.''))"
proof -
  have 1: "h_lstat (test_host True test_manifest) test_tree
             (directory \<lparr> directory = ''old.tgz'', output = ''.'' \<rparr>)
           = Inr \<lparr> isDirectory = False \<rparr>"
    by code_simp
  have 2: "\<not> isDirectory \<lparr> isDirectory = False \<rparr>" by simp
  show ?thesis using input_not_directory_fails [OF 1 2] by simp
qed

subsection \<open>The pipeline\<close>

text \<open>
  Claim C7. Let the paths be resolved, with trace \<open>t\<close>; \<open>t\<close> holds questions and directory
  creations only. If the installation is rejected, the run ends with that rejection and
  the installation is the last event: the manifest is not read, nothing is compiled or
  packed. If the installation, the reading of the manifest and \<^verbatim>\<open>ensureDir\<close> succeed and
  the compilation is rejected, the run ends with that rejection and the compilation is the
  last event: nothing is packed. If the packing is rejected, the run ends with that
  rejection. In each trace every stage occurs once: nothing is tried again and no call
  follows the rejected one. Each outcome is the host's in the world that the \<^verbatim>\<open>await\<close>
  of the call leaves; with nothing in flight that \<^verbatim>\<open>await\<close> changes nothing
  (\<open>turn_none\<close>), and the worlds are the ones the calls before have left.
\<close>

theorem stage_failure_aborts:
  assumes "resolvePaths h a s = (t, Inr ((i, f), s1))"
  shows "set t \<subseteq> range Prompt \<union> range Mkdirp
       \<and> (turn h s1 = Inr s2 \<and> h_install h (world s2) i = Inl m
          \<longrightarrow> run h a s = (t @ [Install i], Inl (Thrown m)))
       \<and> (turn h s1 = Inr s2 \<and> h_install h (world s2) i = Inr w2
          \<and> turn h (s2 \<lparr> world := w2 \<rparr>) = Inr s3
          \<and> h_readJSON h (world s3) (join [i, ''package.json'']) = Inr pj
          \<and> resolveEntry h i pj s3 = ([], Inr (entry, s4))
          \<and> out = resolve (h_cwd h) [i, resolveBundleMain pj]
          \<and> turn h s4 = Inr s5
          \<and> h_ensureDir h (world s5) (dirname out) = Inr w5
          \<and> turn h (s5 \<lparr> world := w5 \<rparr>) = Inr s6
          \<longrightarrow> (h_runBuild h (world s6) i entry out = Inl m
                \<longrightarrow> run h a s
                    = (t @ [Install i, EnsureDir (dirname out), RunBuild i entry out],
                       Inl (Thrown m)))
            \<and> (h_runBuild h (world s6) i entry out = Inr w6
                \<and> turn h (s6 \<lparr> world := w6 \<rparr>) = Inr s7
                \<and> h_pack h (world s7) i f = Inl m
                \<longrightarrow> run h a s
                    = (t @ [Install i, EnsureDir (dirname out), RunBuild i entry out, Pack i f],
                       Inl (Thrown m))))"
proof (intro conjI impI)
  show "set t \<subseteq> range Prompt \<union> range Mkdirp"
    using assms by (rule resolvePaths_events)
next
  assume "turn h s1 = Inr s2 \<and> h_install h (world s2) i = Inl m"
  then show "run h a s = (t @ [Install i], Inl (Thrown m))"
    using run_after_paths [OF assms]
    by (simp add: pipeline_def bnd_def yarn_install_def awaited_step)
next
  assume b: "turn h s1 = Inr s2 \<and> h_install h (world s2) i = Inr w2
          \<and> turn h (s2 \<lparr> world := w2 \<rparr>) = Inr s3
          \<and> h_readJSON h (world s3) (join [i, ''package.json'']) = Inr pj
          \<and> resolveEntry h i pj s3 = ([], Inr (entry, s4))
          \<and> out = resolve (h_cwd h) [i, resolveBundleMain pj]
          \<and> turn h s4 = Inr s5
          \<and> h_ensureDir h (world s5) (dirname out) = Inr w5
          \<and> turn h (s5 \<lparr> world := w5 \<rparr>) = Inr s6"
    and c: "h_runBuild h (world s6) i entry out = Inl m"
  show "run h a s
        = (t @ [Install i, EnsureDir (dirname out), RunBuild i entry out], Inl (Thrown m))"
  proof -
    have o: "out = resolve (h_cwd h) [i, resolveBundleMain pj]" using b by simp
    show ?thesis
      using run_after_paths [OF assms] b c unfolding o
      by (simp add: pipeline_def bnd_def yarn_install_def ensureDir_def runBuild_def
          awaited_step readJSON_step Let_def)
  qed
next
  assume b: "turn h s1 = Inr s2 \<and> h_install h (world s2) i = Inr w2
          \<and> turn h (s2 \<lparr> world := w2 \<rparr>) = Inr s3
          \<and> h_readJSON h (world s3) (join [i, ''package.json'']) = Inr pj
          \<and> resolveEntry h i pj s3 = ([], Inr (entry, s4))
          \<and> out = resolve (h_cwd h) [i, resolveBundleMain pj]
          \<and> turn h s4 = Inr s5
          \<and> h_ensureDir h (world s5) (dirname out) = Inr w5
          \<and> turn h (s5 \<lparr> world := w5 \<rparr>) = Inr s6"
    and c: "h_runBuild h (world s6) i entry out = Inr w6
                \<and> turn h (s6 \<lparr> world := w6 \<rparr>) = Inr s7
                \<and> h_pack h (world s7) i f = Inl m"
  show "run h a s
        = (t @ [Install i, EnsureDir (dirname out), RunBuild i entry out, Pack i f],
           Inl (Thrown m))"
  proof -
    have o: "out = resolve (h_cwd h) [i, resolveBundleMain pj]" using b by simp
    show ?thesis
      using run_after_paths [OF assms] b c unfolding o
      by (simp add: pipeline_def bnd_def yarn_install_def ensureDir_def runBuild_def
          yarn_pack_def awaited_step readJSON_step Let_def)
  qed
qed

theorem stage_failure_aborts_witness:
  "run (failing_host ''install'') \<lparr> directory = ''plugin'', output = ''dist'' \<rparr>
     (quiet test_tree)
   = ([Install ''/work/plugin''], Inl (Thrown ''yarn install failed''))
   \<and> run (failing_host ''build'') \<lparr> directory = ''plugin'', output = ''dist'' \<rparr>
     (quiet test_tree)
   = ([Install ''/work/plugin'', EnsureDir ''/work/plugin/dist'',
       RunBuild ''/work/plugin'' (Str ''index.tsx'') ''/work/plugin/dist/index.js''],
      Inl (Thrown ''build failed''))
   \<and> run (failing_host ''pack'') \<lparr> directory = ''plugin'', output = ''dist'' \<rparr>
     (quiet test_tree)
   = ([Install ''/work/plugin'', EnsureDir ''/work/plugin/dist'',
       RunBuild ''/work/plugin'' (Str ''index.tsx'') ''/work/plugin/dist/index.js'',
       Pack ''/work/plugin'' ''/work/dist/my-plugin-1.2.3.tgz''],
      Inl (Thrown ''yarn pack failed''))"
proof -
  let ?a = "\<lparr> directory = ''plugin'', output = ''dist'' \<rparr>"
  let ?i = "''/work/plugin''"
  let ?f = "''/work/dist/my-plugin-1.2.3.tgz''"
  let ?out = "''/work/plugin/dist/index.js''"
  let ?w2 = "(''/work/plugin/node_modules'', True) # test_tree"
  let ?w5 = "(''/work/plugin/dist'', True) # ?w2"
  let ?w6 = "(?out, False) # ?w5"
  have p: "resolvePaths (failing_host s) ?a (quiet test_tree)
           = ([], Inr ((?i, ?f), quiet test_tree))"
    if "s = ''install'' \<or> s = ''build'' \<or> s = ''pack''" for s
    using that by (elim disjE) (simp_all, code_simp+)
  have a1: "turn (failing_host ''install'') (quiet test_tree) = Inr (quiet test_tree)
          \<and> h_install (failing_host ''install'') (world (quiet test_tree)) ?i
              = Inl ''yarn install failed''"
    by code_simp
  have b1: "turn (failing_host ''build'') (quiet test_tree) = Inr (quiet test_tree)
          \<and> h_install (failing_host ''build'') (world (quiet test_tree)) ?i = Inr ?w2
          \<and> turn (failing_host ''build'') (quiet test_tree \<lparr> world := ?w2 \<rparr>) = Inr (quiet ?w2)
          \<and> h_readJSON (failing_host ''build'') (world (quiet ?w2)) (join [?i, ''package.json''])
              = Inr test_manifest
          \<and> resolveEntry (failing_host ''build'') ?i test_manifest (quiet ?w2)
              = ([], Inr (Str ''index.tsx'', quiet ?w2))
          \<and> ?out = resolve (h_cwd (failing_host ''build'')) [?i, resolveBundleMain test_manifest]
          \<and> turn (failing_host ''build'') (quiet ?w2) = Inr (quiet ?w2)
          \<and> h_ensureDir (failing_host ''build'') (world (quiet ?w2)) (dirname ?out) = Inr ?w5
          \<and> turn (failing_host ''build'') (quiet ?w2 \<lparr> world := ?w5 \<rparr>) = Inr (quiet ?w5)"
    by code_simp
  have b2: "h_runBuild (failing_host ''build'') (world (quiet ?w5)) ?i (Str ''index.tsx'') ?out
            = Inl ''build failed''"
    by code_simp
  have c1: "turn (failing_host ''pack'') (quiet test_tree) = Inr (quiet test_tree)
          \<and> h_install (failing_host ''pack'') (world (quiet test_tree)) ?i = Inr ?w2
          \<and> turn (failing_host ''pack'') (quiet test_tree \<lparr> world := ?w2 \<rparr>) = Inr (quiet ?w2)
          \<and> h_readJSON (failing_host ''pack'') (world (quiet ?w2)) (join [?i, ''package.json''])
              = Inr test_manifest
          \<and> resolveEntry (failing_host ''pack'') ?i test_manifest (quiet ?w2)
              = ([], Inr (Str ''index.tsx'', quiet ?w2))
          \<and> ?out = resolve (h_cwd (failing_host ''pack'')) [?i, resolveBundleMain test_manifest]
          \<and> turn (failing_host ''pack'') (quiet ?w2) = Inr (quiet ?w2)
          \<and> h_ensureDir (failing_host ''pack'') (world (quiet ?w2)) (dirname ?out) = Inr ?w5
          \<and> turn (failing_host ''pack'') (quiet ?w2 \<lparr> world := ?w5 \<rparr>) = Inr (quiet ?w5)"
    by code_simp
  have c2: "h_runBuild (failing_host ''pack'') (world (quiet ?w5)) ?i (Str ''index.tsx'') ?out
              = Inr ?w6
            \<and> turn (failing_host ''pack'') (quiet ?w5 \<lparr> world := ?w6 \<rparr>) = Inr (quiet ?w6)
            \<and> h_pack (failing_host ''pack'') (world (quiet ?w6)) ?i ?f = Inl ''yarn pack failed''"
    by code_simp
  have d: "dirname ?out = ''/work/plugin/dist''" by code_simp
  have r1: "run (failing_host ''install'') ?a (quiet test_tree)
            = ([] @ [Install ?i], Inl (Thrown ''yarn install failed''))"
    using stage_failure_aborts [OF p, of "''install''" "quiet test_tree"
        "''yarn install failed''"] a1 by blast
  have r2: "run (failing_host ''build'') ?a (quiet test_tree)
            = ([] @ [Install ?i, EnsureDir (dirname ?out), RunBuild ?i (Str ''index.tsx'') ?out],
               Inl (Thrown ''build failed''))"
    using stage_failure_aborts [OF p, of "''build''" "quiet test_tree" "''build failed''"
        ?w2 "quiet ?w2" test_manifest "Str ''index.tsx''" "quiet ?w2" ?out "quiet ?w2" ?w5
        "quiet ?w5"] b1 b2 by blast
  have r3: "run (failing_host ''pack'') ?a (quiet test_tree)
            = ([] @ [Install ?i, EnsureDir (dirname ?out), RunBuild ?i (Str ''index.tsx'') ?out,
                     Pack ?i ?f],
               Inl (Thrown ''yarn pack failed''))"
    using stage_failure_aborts [OF p, of "''pack''" "quiet test_tree" "''yarn pack failed''"
        ?w2 "quiet ?w2" test_manifest "Str ''index.tsx''" "quiet ?w2" ?out "quiet ?w2" ?w5
        "quiet ?w5" ?w6 "quiet ?w6"] c1 c2 by blast
  show ?thesis using r1 r2 r3 d by simp
qed

text \<open>
  Claim C8. Let the paths be resolved, the installation succeed and the manifest be read.
  The bundle output path \<open>out\<close> is \<^verbatim>\<open>bundleMain\<close> of the manifest when that is a string and
  \<^verbatim>\<open>dist/index.js\<close> otherwise, resolved under the input directory. \<^verbatim>\<open>ensureDir\<close> is called
  on the directory of \<open>out\<close> right after the installation: if it is rejected the run ends
  there and the compiler is not called; if it succeeds the next event is the call of the
  compiler with the input directory, the entry and \<open>out\<close>, and the compiler's outcome is
  the host's in the world \<open>w5\<close> that \<^verbatim>\<open>ensureDir\<close> has left (with nothing in flight,
  exactly that world), the rest of the run being the packing from the world the compiler
  leaves. That the world left by an accepted \<^verbatim>\<open>ensureDir\<close> holds the directory is the
  contract of fs-extra; on the file system of the witness it does.
\<close>

theorem bundle_output_ensured:
  assumes "resolvePaths h a s = (t, Inr ((i, f), s1))"
    and "turn h s1 = Inr s2" and "h_install h (world s2) i = Inr w2"
    and "turn h (s2 \<lparr> world := w2 \<rparr>) = Inr s3"
    and "h_readJSON h (world s3) (join [i, ''package.json'']) = Inr pj"
    and "resolveEntry h i pj s3 = ([], Inr (entry, s4))"
    and "out = resolve (h_cwd h) [i, case bundleMain pj of Str s \<Rightarrow> s | _ \<Rightarrow> ''dist/index.js'']"
    and "turn h s4 = Inr s5"
  shows "(h_ensureDir h (world s5) (dirname out) = Inl m
          \<longrightarrow> run h a s = (t @ [Install i, EnsureDir (dirname out)], Inl (Thrown m)))
       \<and> (h_ensureDir h (world s5) (dirname out) = Inr w5
          \<and> turn h (s5 \<lparr> world := w5 \<rparr>) = Inr s6
          \<longrightarrow> (h_runBuild h (world s6) i entry out = Inl m
                \<longrightarrow> run h a s
                    = (t @ [Install i, EnsureDir (dirname out), RunBuild i entry out],
                       Inl (Thrown m)))
            \<and> (h_runBuild h (world s6) i entry out = Inr w6
                \<longrightarrow> run h a s
                    = (t @ [Install i, EnsureDir (dirname out), RunBuild i entry out]
                         @ fst (yarn_pack h i f (s6 \<lparr> world := w6 \<rparr>)),
                       snd (yarn_pack h i f (s6 \<lparr> world := w6 \<rparr>))))
            \<and> (inflight s5 = None \<longrightarrow> s6 = s5 \<lparr> world := w5 \<rparr>))"
proof -
  have o: "out = resolve (h_cwd h) [i, resolveBundleMain pj]"
    using assms(7)
    by (cases "bundleMain pj") (simp_all add: resolveBundleMain_def join_dist_index)
  have pre: "pipeline h i f s1
             = (Install i # fst (bnd (ensureDir h (dirname out))
                                  (\<lambda>_. bnd (runBuild h i entry out) (\<lambda>_. yarn_pack h i f)) s4),
                snd (bnd (ensureDir h (dirname out))
                       (\<lambda>_. bnd (runBuild h i entry out) (\<lambda>_. yarn_pack h i f)) s4))"
    using assms(2-6) unfolding o
    by (simp add: pipeline_def bnd_def yarn_install_def awaited_step readJSON_step Let_def
        split: prod.splits sum.splits)
  show ?thesis
  proof (intro conjI impI)
    assume "h_ensureDir h (world s5) (dirname out) = Inl m"
    then show "run h a s = (t @ [Install i, EnsureDir (dirname out)], Inl (Thrown m))"
      using run_after_paths [OF assms(1)] pre assms(8)
      by (simp add: bnd_def ensureDir_def awaited_step)
  next
    assume b: "h_ensureDir h (world s5) (dirname out) = Inr w5
               \<and> turn h (s5 \<lparr> world := w5 \<rparr>) = Inr s6"
      and c: "h_runBuild h (world s6) i entry out = Inl m"
    show "run h a s
          = (t @ [Install i, EnsureDir (dirname out), RunBuild i entry out], Inl (Thrown m))"
      using run_after_paths [OF assms(1)] pre assms(8) b c
      by (simp add: bnd_def ensureDir_def runBuild_def awaited_step)
  next
    assume b: "h_ensureDir h (world s5) (dirname out) = Inr w5
               \<and> turn h (s5 \<lparr> world := w5 \<rparr>) = Inr s6"
      and c: "h_runBuild h (world s6) i entry out = Inr w6"
    show "run h a s
          = (t @ [Install i, EnsureDir (dirname out), RunBuild i entry out]
               @ fst (yarn_pack h i f (s6 \<lparr> world := w6 \<rparr>)),
             snd (yarn_pack h i f (s6 \<lparr> world := w6 \<rparr>)))"
      using run_after_paths [OF assms(1)] pre assms(8) b c
      by (simp add: bnd_def ensureDir_def runBuild_def awaited_step split: prod.splits)
  next
    assume b: "h_ensureDir h (world s5) (dirname out) = Inr w5
               \<and> turn h (s5 \<lparr> world := w5 \<rparr>) = Inr s6"
      and n: "inflight s5 = None"
    have "turn h (s5 \<lparr> world := w5 \<rparr>) = Inr (s5 \<lparr> world := w5 \<rparr>)"
      using n by (intro turn_none) simp
    then show "s6 = s5 \<lparr> world := w5 \<rparr>" using b by simp
  qed
qed

theorem bundle_output_ensured_witness:
  "run (failing_host ''ensureDir'') \<lparr> directory = ''plugin'', output = ''dist'' \<rparr>
     (quiet test_tree)
   = ([Install ''/work/plugin'', EnsureDir ''/work/plugin/dist''], Inl (Thrown ''EACCES''))
   \<and> run (test_host True test_manifest) \<lparr> directory = ''plugin'', output = ''dist'' \<rparr>
     (quiet test_tree)
   = ([Install ''/work/plugin'', EnsureDir ''/work/plugin/dist'',
       RunBuild ''/work/plugin'' (Str ''index.tsx'') ''/work/plugin/dist/index.js'',
       Pack ''/work/plugin'' ''/work/dist/my-plugin-1.2.3.tgz''],
      Inr ((), quiet ([(''/work/dist/my-plugin-1.2.3.tgz'', False),
                       (''/work/plugin/dist/index.js'', False),
                       (''/work/plugin/dist'', True),
                       (''/work/plugin/node_modules'', True)] @ test_tree)))
   \<and> tree_lookup ((''/work/plugin/node_modules'', True) # test_tree) ''/work/plugin/dist''
       = None
   \<and> tree_lookup ((''/work/plugin/dist'', True) # (''/work/plugin/node_modules'', True)
                      # test_tree) ''/work/plugin/dist''
       = Some True"
proof -
  let ?a = "\<lparr> directory = ''plugin'', output = ''dist'' \<rparr>"
  let ?g = "failing_host ''ensureDir''"
  let ?h = "test_host True test_manifest"
  let ?i = "''/work/plugin''"
  let ?f = "''/work/dist/my-plugin-1.2.3.tgz''"
  let ?out = "''/work/plugin/dist/index.js''"
  let ?w2 = "(''/work/plugin/node_modules'', True) # test_tree"
  let ?w5 = "(''/work/plugin/dist'', True) # ?w2"
  let ?w6 = "(?out, False) # ?w5"
  have pg: "resolvePaths ?g ?a (quiet test_tree) = ([], Inr ((?i, ?f), quiet test_tree))"
    by code_simp
  have ph: "resolvePaths ?h ?a (quiet test_tree) = ([], Inr ((?i, ?f), quiet test_tree))"
    by code_simp
  have g2: "turn ?g (quiet test_tree) = Inr (quiet test_tree)" by code_simp
  have g3: "h_install ?g (world (quiet test_tree)) ?i = Inr ?w2" by code_simp
  have g4: "turn ?g (quiet test_tree \<lparr> world := ?w2 \<rparr>) = Inr (quiet ?w2)" by code_simp
  have g5: "h_readJSON ?g (world (quiet ?w2)) (join [?i, ''package.json'']) = Inr test_manifest"
    by code_simp
  have g6: "resolveEntry ?g ?i test_manifest (quiet ?w2)
            = ([], Inr (Str ''index.tsx'', quiet ?w2))"
    by code_simp
  have g7: "?out = resolve (h_cwd ?g)
              [?i, case bundleMain test_manifest of Str s \<Rightarrow> s | _ \<Rightarrow> ''dist/index.js'']"
    by code_simp
  have g8: "turn ?g (quiet ?w2) = Inr (quiet ?w2)" by code_simp
  have g9: "h_ensureDir ?g (world (quiet ?w2)) (dirname ?out) = Inl ''EACCES''" by code_simp
  have h2: "turn ?h (quiet test_tree) = Inr (quiet test_tree)" by code_simp
  have h3: "h_install ?h (world (quiet test_tree)) ?i = Inr ?w2" by code_simp
  have h4: "turn ?h (quiet test_tree \<lparr> world := ?w2 \<rparr>) = Inr (quiet ?w2)" by code_simp
  have h5: "h_readJSON ?h (world (quiet ?w2)) (join [?i, ''package.json'']) = Inr test_manifest"
    by code_simp
  have h6: "resolveEntry ?h ?i test_manifest (quiet ?w2)
            = ([], Inr (Str ''index.tsx'', quiet ?w2))"
    by code_simp
  have h7: "?out = resolve (h_cwd ?h)
              [?i, case bundleMain test_manifest of Str s \<Rightarrow> s | _ \<Rightarrow> ''dist/index.js'']"
    by code_simp
  have h8: "turn ?h (quiet ?w2) = Inr (quiet ?w2)" by code_simp
  have h9: "h_ensureDir ?h (world (quiet ?w2)) (dirname ?out) = Inr ?w5
            \<and> turn ?h (quiet ?w2 \<lparr> world := ?w5 \<rparr>) = Inr (quiet ?w5)"
    by code_simp
  have h10: "h_runBuild ?h (world (quiet ?w5)) ?i (Str ''index.tsx'') ?out = Inr ?w6"
    by code_simp
  have pk: "yarn_pack ?h ?i ?f (quiet ?w5 \<lparr> world := ?w6 \<rparr>)
            = ([Pack ?i ?f], Inr ((), quiet ((?f, False) # ?w6)))"
    by code_simp
  have d: "dirname ?out = ''/work/plugin/dist''" by code_simp
  have l: "tree_lookup ?w2 ''/work/plugin/dist'' = None"
          "tree_lookup ?w5 ''/work/plugin/dist'' = Some True"
    by code_simp+
  have r1: "run ?g ?a (quiet test_tree)
            = ([] @ [Install ?i, EnsureDir (dirname ?out)], Inl (Thrown ''EACCES''))"
    using bundle_output_ensured [OF pg g2 g3 g4 g5 g6 g7 g8, of "''EACCES''"] g9 by blast
  have r2: "run ?h ?a (quiet test_tree)
            = ([] @ [Install ?i, EnsureDir (dirname ?out), RunBuild ?i (Str ''index.tsx'') ?out]
                 @ fst (yarn_pack ?h ?i ?f (quiet ?w5 \<lparr> world := ?w6 \<rparr>)),
               snd (yarn_pack ?h ?i ?f (quiet ?w5 \<lparr> world := ?w6 \<rparr>)))"
    using bundle_output_ensured [OF ph h2 h3 h4 h5 h6 h7 h8, of _ ?w5 "quiet ?w5" ?w6]
      h9 h10 by blast
  show ?thesis using r1 r2 pk d l by simp
qed

subsection \<open>The creation that is not awaited\<close>




subsection \<open>The derived name\<close>

text \<open>
  Claim C10. When the manifest can be read and its \<^verbatim>\<open>name\<close> is absent, null or the empty
  string, \<^verbatim>\<open>deriveOutputFileName\<close> does not fail: it returns \<^verbatim>\<open>-<version>.tgz\<close>, the
  name part being empty. The first part is the statement for a run with nothing in
  flight, the second for any state whose \<^verbatim>\<open>await\<close> the process lives through.
\<close>

theorem outputFileName_without_name:
  assumes "name pj = Undefined \<or> name pj = Null \<or> name pj = Str []"
  shows "(h_readJSON h w (join [inputDirectory, ''package.json'']) = Inr pj
          \<longrightarrow> deriveOutputFileName h inputDirectory (quiet w)
              = ([], Inr (''-'' @ to_string (version pj) @ ''.tgz'', quiet w)))
       \<and> (turn h s = Inr s'
          \<and> h_readJSON h (world s') (join [inputDirectory, ''package.json'']) = Inr pj
          \<longrightarrow> deriveOutputFileName h inputDirectory s
              = ([], Inr (''-'' @ to_string (version pj) @ ''.tgz'', s')))"
  using assms
  by (auto simp: deriveOutputFileName_def outputFileName_def bnd_def ret_def
      readJSON_step turn_quiet world_quiet)

theorem outputFileName_without_name_witness:
  "deriveOutputFileName (test_host True nameless_manifest) ''plugin'' (quiet test_tree)
   = ([], Inr (''-1.2.3.tgz'', quiet test_tree))"
proof -
  have 1: "h_readJSON (test_host True nameless_manifest) test_tree
             (join [''plugin'', ''package.json'']) = Inr nameless_manifest"
    by code_simp
  have 2: "name nameless_manifest = Undefined \<or> name nameless_manifest = Null
           \<or> name nameless_manifest = Str []"
    by (simp add: nameless_manifest_def)
  show ?thesis
    using outputFileName_without_name [OF 2, of "test_host True nameless_manifest" test_tree
        "''plugin''"] 1
    by (simp add: nameless_manifest_def)
qed

end
